theory Spec2Isabelle
  imports Main "HOL-Library.AList" "HOL-Library.Word"
begin

section \<open>Data model (types.ts)\<close>

text \<open>
  JavaScript numbers are modelled as \<open>int\<close> (every number of the game is an integer far
  below \<open>2 ^ 53\<close>), array positions as \<open>nat\<close>, and \<open>undefined\<close>/\<open>null\<close> as \<open>None\<close>.
  The fields \<open>id\<close> and \<open>type\<close> of \<open>MediaItem\<close> are called \<open>item_id\<close> and \<open>item_type\<close>
  here, since \<open>id\<close> is the identity function of HOL.
\<close>

datatype MediaType = Image | Video

record MediaItem =
  item_id :: string
  item_type :: MediaType
  url :: string
  isReal :: bool
  title :: string
  explanation :: string
  tips :: "string list"
  category :: string
  shortTip :: "string option"
  aiModel :: "string option"
  isCustom :: "bool option"

record UserAnswer =
  itemId :: string
  guessedReal :: bool
  isCorrect :: bool
  timeTaken :: int
  pointsEarned :: int

record GameDebugConfig =
  initialStreak :: "int option"
  forceBonusRound :: "bool option"

section \<open>Session controller (GameScreen)\<close>

datatype feedback_kind = Correct | Incorrect

datatype bonus_outcome = Success | Fail

text \<open>What the code throws: \<open>Error msg\<close> is \<open>new Error(msg)\<close>.\<close>

datatype js_error = TypeError | SyntaxError | DataError | ZipError | Error string

text \<open>
  The state of one \<open>GameScreen\<close>: its props \<open>items\<close> and \<open>debugConfig\<close>, one field for each
  \<open>useState\<close> hook that the controller logic reads, and \<open>endGameCalls\<close>, the arguments of
  the calls of the prop \<open>onEndGame\<close> made so far, oldest first.
\<close>

record game =
  items :: "MediaItem list"
  debugConfig :: "GameDebugConfig option"
  currentIndex :: nat
  timeLeft :: int
  answers :: "UserAnswer list"
  feedback :: "feedback_kind option"
  isProcessing :: bool
  lastPointsEarned :: int
  streak :: int
  score :: int
  earnedBonus :: bool
  showBonusRound :: bool
  bonusTimer :: int
  bonusItems :: "(MediaItem \<times> MediaItem) option"
  bonusDisplayItems :: "MediaItem list"
  bonusResult :: "bonus_outcome option"
  bonusFeedbackItem :: "MediaItem option"
  endGameCalls :: "UserAnswer list list"

definition BASE_POINTS :: int where "BASE_POINTS = 100"
definition BONUS_POINTS :: int where "BONUS_POINTS = 1000"
definition STREAK_THRESHOLD :: int where "STREAK_THRESHOLD = 3"
definition MEGA_STREAK_THRESHOLD :: int where "MEGA_STREAK_THRESHOLD = 7"
definition BONUS_ROUND_QUALIFIER :: int where "BONUS_ROUND_QUALIFIER = 5"

text \<open>\<open>xs[i]\<close> of JavaScript: \<open>undefined\<close> outside the array.\<close>

definition js_index :: "'a list \<Rightarrow> nat \<Rightarrow> 'a option" where
  "js_index xs i = (if i < length xs then Some (xs ! i) else None)"

text \<open>\<open>debugConfig?.initialStreak || 0\<close>: an absent value and \<open>0\<close> both give \<open>0\<close>.\<close>

definition initial_streak :: "GameDebugConfig option \<Rightarrow> int" where
  "initial_streak cfg =
     (case cfg of None \<Rightarrow> 0
      | Some c \<Rightarrow> (case initialStreak c of None \<Rightarrow> 0 | Some n \<Rightarrow> n))"

text \<open>The initial values of the hooks of \<open>GameScreen\<close>.\<close>

definition initGame :: "MediaItem list \<Rightarrow> int \<Rightarrow> GameDebugConfig option \<Rightarrow> game" where
  "initGame its duration cfg =
     \<lparr> items = its, debugConfig = cfg, currentIndex = 0, timeLeft = duration,
       answers = [], feedback = None, isProcessing = False, lastPointsEarned = 0,
       streak = initial_streak cfg, score = 0, earnedBonus = False,
       showBonusRound = False, bonusTimer = 10, bonusItems = None,
       bonusDisplayItems = [], bonusResult = None, bonusFeedbackItem = None,
       endGameCalls = [] \<rparr>"

definition currentItem :: "game \<Rightarrow> MediaItem option" where
  "currentItem s = js_index (items s) (currentIndex s)"

text \<open>The prop \<open>onEndGame\<close>, recorded.\<close>

definition onEndGame :: "UserAnswer list \<Rightarrow> game \<Rightarrow> game" where
  "onEndGame as s = s\<lparr>endGameCalls := endGameCalls s @ [as]\<rparr>"

text \<open>The effect on \<open>[streak, earnedBonus]\<close>: the qualification latches.\<close>

definition earnedBonusEffect :: "game \<Rightarrow> game" where
  "earnedBonusEffect s =
     (if streak s \<ge> BONUS_ROUND_QUALIFIER then s\<lparr>earnedBonus := True\<rparr> else s)"

text \<open>The effect on \<open>[debugConfig]\<close>.\<close>

definition debugEffect :: "game \<Rightarrow> game" where
  "debugEffect s =
     (case debugConfig s of None \<Rightarrow> s
      | Some c \<Rightarrow> if forceBonusRound c = Some True then s\<lparr>earnedBonus := True\<rparr> else s)"

text \<open>
  \<open>startBonusRound\<close>. The three uses of \<open>Math.random\<close> are arguments: \<open>r1\<close> and \<open>r2\<close>
  stand for the random numbers behind the two picks, and
  \<open>Math.floor(Math.random() * n)\<close> is \<open>r mod n\<close>, a position below \<open>n\<close>; \<open>swap\<close> tells
  whether the randomly ordered sort of the two chosen items exchanges them.
\<close>

definition startBonusRound :: "nat \<Rightarrow> nat \<Rightarrow> bool \<Rightarrow> game \<Rightarrow> game" where
  "startBonusRound r1 r2 swap s =
     (let availableReal = filter isReal (items s);
          availableAI = filter (\<lambda>i. \<not> isReal i) (items s);
          real = (if length availableReal > 0
                  then js_index availableReal (r1 mod length availableReal)
                  else js_index (items s) 0);
          ai = (if length availableAI > 0
                then js_index availableAI (r2 mod length availableAI)
                else js_index (items s) 0)
      in case (real, ai) of
           (Some re, Some a) \<Rightarrow>
             s\<lparr> bonusItems := Some (re, a),
                bonusFeedbackItem := None,
                bonusDisplayItems := (if swap then [a, re] else [re, a]),
                bonusTimer := 10,
                showBonusRound := True \<rparr>
         | _ \<Rightarrow> onEndGame (answers s) s)"

text \<open>
  The effect of the main timer. When it neither starts the bonus round nor ends the game
  it installs the one-second interval, whose callback is \<open>mainTick\<close>.
\<close>

definition mainTimerEffect :: "nat \<Rightarrow> nat \<Rightarrow> bool \<Rightarrow> game \<Rightarrow> game" where
  "mainTimerEffect r1 r2 swap s =
     (if showBonusRound s then s
      else if timeLeft s \<le> 0 then
        (if earnedBonus s \<and> \<not> showBonusRound s \<and> bonusResult s = None
         then startBonusRound r1 r2 swap s
         else if \<not> showBonusRound s then onEndGame (answers s) s
         else s)
      else s)"

definition mainTick :: "game \<Rightarrow> game" where
  "mainTick s =
     (if showBonusRound s \<or> timeLeft s \<le> 0 then s
      else s\<lparr>timeLeft := timeLeft s - 1\<rparr>)"

definition handleBonusResult :: "bonus_outcome \<Rightarrow> UserAnswer option \<Rightarrow> game \<Rightarrow> game" where
  "handleBonusResult result bonusAnswer s =
     (let s1 = s\<lparr>bonusResult := Some result\<rparr>;
          s2 = (if result = Success then s1\<lparr>score := score s1 + BONUS_POINTS\<rparr> else s1)
      in case bonusAnswer of
           Some a \<Rightarrow> s2\<lparr>answers := answers s2 @ [a]\<rparr>
         | None \<Rightarrow> s2)"

definition handleBonusAnswer :: "MediaItem \<Rightarrow> game \<Rightarrow> game" where
  "handleBonusAnswer selectedItem s =
     (if bonusResult s \<noteq> None then s
      else
        let s1 = s\<lparr>bonusFeedbackItem := Some selectedItem\<rparr>;
            isCorrect' = (\<not> isReal selectedItem);
            bonusAnswer = \<lparr> itemId = item_id selectedItem, guessedReal = False,
                            isCorrect = isCorrect', timeTaken = 0,
                            pointsEarned = (if isCorrect' then BONUS_POINTS else 0) \<rparr>
        in if isCorrect' then handleBonusResult Success (Some bonusAnswer) s1
           else handleBonusResult Fail (Some bonusAnswer) s1)"

text \<open>The effect of the bonus timer, and the callback \<open>bonusTick\<close> of its interval.\<close>

definition bonusTimerEffect :: "game \<Rightarrow> game" where
  "bonusTimerEffect s =
     (if \<not> showBonusRound s \<or> bonusResult s \<noteq> None then s
      else if bonusTimer s \<le> 0 then handleBonusResult Fail None s
      else s)"

definition bonusTick :: "game \<Rightarrow> game" where
  "bonusTick s =
     (if \<not> showBonusRound s \<or> bonusResult s \<noteq> None \<or> bonusTimer s \<le> 0 then s
      else s\<lparr>bonusTimer := bonusTimer s - 1\<rparr>)"

text \<open>
  \<open>handleAnswer\<close>. Reading \<open>currentItem.isReal\<close> when \<open>items[currentIndex]\<close> is
  \<open>undefined\<close> throws a \<open>TypeError\<close>; the error value does not keep the state, in which
  \<open>isProcessing\<close> was set just before. The callback of the 1800 ms timeout it sets is
  \<open>answerTimeout\<close>.
\<close>

definition handleAnswer :: "bool \<Rightarrow> game \<Rightarrow> js_error + game" where
  "handleAnswer guessed s =
     (if isProcessing s then Inr s
      else case currentItem s of
        None \<Rightarrow> Inl TypeError
      | Some item \<Rightarrow>
          let s1 = s\<lparr>isProcessing := True\<rparr>;
              correct = (guessed = isReal item);
              newStreak = streak s + 1;
              multiplier = (if newStreak \<ge> MEGA_STREAK_THRESHOLD then 4
                            else if newStreak \<ge> STREAK_THRESHOLD then 2 else 1);
              points = (if correct then BASE_POINTS * multiplier else 0);
              s2 = (if correct
                    then s1\<lparr> score := score s1 + points, streak := newStreak,
                             lastPointsEarned := points \<rparr>
                    else s1\<lparr> streak := 0, lastPointsEarned := 0 \<rparr>);
              newAnswer = \<lparr> itemId = item_id item, guessedReal = guessed,
                            isCorrect = correct, timeTaken = 0, pointsEarned = points \<rparr>
          in Inr (s2\<lparr> answers := answers s @ [newAnswer],
                       feedback := Some (if correct then Correct else Incorrect) \<rparr>))"

definition answerTimeout :: "game \<Rightarrow> game" where
  "answerTimeout s =
     (let s1 = s\<lparr>feedback := None, isProcessing := False\<rparr>
      in if int (currentIndex s) < int (length (items s)) - 1
         then s1\<lparr>currentIndex := currentIndex s + 1\<rparr>
         else s1\<lparr>timeLeft := 0\<rparr>)"

text \<open>The NEXT button of the bonus round, shown once a bonus result exists.\<close>

definition bonusNext :: "game \<Rightarrow> game" where
  "bonusNext s =
     (if showBonusRound s \<and> bonusResult s \<noteq> None then onEndGame (answers s) s else s)"

text \<open>
  Everything that can happen to a mounted \<open>GameScreen\<close>: a click, a timer callback, or
  the run of an effect.
\<close>

datatype event =
    Answer bool
  | AnswerTimeout
  | EarnedBonusEffect
  | DebugEffect
  | MainTimerEffect nat nat bool
  | MainTick
  | BonusTimerEffect
  | BonusTick
  | BonusAnswer MediaItem
  | BonusNext

fun step :: "event \<Rightarrow> game \<Rightarrow> js_error + game" where
  "step (Answer g) s = handleAnswer g s"
| "step AnswerTimeout s = Inr (answerTimeout s)"
| "step EarnedBonusEffect s = Inr (earnedBonusEffect s)"
| "step DebugEffect s = Inr (debugEffect s)"
| "step (MainTimerEffect r1 r2 swap) s = Inr (mainTimerEffect r1 r2 swap s)"
| "step MainTick s = Inr (mainTick s)"
| "step BonusTimerEffect s = Inr (bonusTimerEffect s)"
| "step BonusTick s = Inr (bonusTick s)"
| "step (BonusAnswer i) s = Inr (handleBonusAnswer i s)"
| "step BonusNext s = Inr (bonusNext s)"

fun run :: "event list \<Rightarrow> game \<Rightarrow> js_error + game" where
  "run [] s = Inr s"
| "run (e # es) s = (case step e s of Inl err \<Rightarrow> Inl err | Inr s' \<Rightarrow> run es s')"

text \<open>The score that the results and review screens recompute from the answer log.\<close>

definition totalScore :: "UserAnswer list \<Rightarrow> int" where
  "totalScore as = foldl (\<lambda>sum a. sum + pointsEarned a) 0 as"

text \<open>Items for the concrete scenarios: only the identifier and the ground truth vary.\<close>

definition mk_item :: "string \<Rightarrow> bool \<Rightarrow> MediaItem" where
  "mk_item i r =
     \<lparr> item_id = i, item_type = Image, url = ''data:image/png;base64,AA=='', isReal = r,
       title = i, explanation = [], tips = [], category = [], shortTip = None,
       aiModel = None, isCustom = None \<rparr>"

text \<open>The concrete scenario of the specification: \<open>A\<close> authentic, \<open>B\<close> not, \<open>C\<close> authentic.\<close>

definition scenario_items :: "MediaItem list" where
  "scenario_items = [mk_item ''A'' True, mk_item ''B'' False, mk_item ''C'' True]"

definition scenario_events :: "event list" where
  "scenario_events =
     [Answer True, AnswerTimeout, Answer True, AnswerTimeout, Answer False, AnswerTimeout,
      MainTimerEffect 0 0 False]"

text \<open>A session whose main timer has run out with the bonus qualification earned.\<close>

definition bonus_ready :: "MediaItem list \<Rightarrow> game" where
  "bonus_ready its = (initGame its 30 None)\<lparr>timeLeft := 0, earnedBonus := True\<rparr>"

definition in_bonus :: game where
  "in_bonus = mainTimerEffect 0 0 False (bonus_ready scenario_items)"


section \<open>Content store and package codec (utils/db.ts)\<close>

subsection \<open>Strings\<close>

text \<open>
  A string is a list of code units, and a \<open>char\<close> is a code unit below 256: the strings of
  this model are those of JavaScript that stay within Latin-1. \<open>trim\<close> strips the white
  space and the line terminators of JavaScript in that range (U+0009 to U+000D, U+0020 and
  U+00A0), \<open>toLowerCase\<close> maps the capital letters of that range (A to Z, and U+00C0 to
  U+00DE but for the multiplication sign U+00D7) to their small letters.
\<close>

definition startsWith :: "string \<Rightarrow> string \<Rightarrow> bool" where
  "startsWith s p = (take (length p) s = p)"

fun includesStr :: "string \<Rightarrow> string \<Rightarrow> bool" where
  "includesStr [] sub = (sub = [])"
| "includesStr (c # cs) sub = (startsWith (c # cs) sub \<or> includesStr cs sub)"

definition is_space :: "char \<Rightarrow> bool" where
  "is_space c =
     (c = CHR '' '' \<or> (9 :: nat) \<le> of_char c \<and> of_char c \<le> (13 :: nat) \<or>
      of_char c = (160 :: nat))"

definition trim :: "string \<Rightarrow> string" where
  "trim s = rev (dropWhile is_space (rev (dropWhile is_space s)))"

definition is_upper :: "char \<Rightarrow> bool" where
  "is_upper c =
     ((65 :: nat) \<le> of_char c \<and> of_char c \<le> (90 :: nat) \<or>
      (192 :: nat) \<le> of_char c \<and> of_char c \<le> (222 :: nat) \<and> of_char c \<noteq> (215 :: nat))"

definition toLowerCase :: "string \<Rightarrow> string" where
  "toLowerCase s = map (\<lambda>c. if is_upper c then char_of (of_char c + (32 :: nat)) else c) s"

text \<open>\<open>s.split(';')[0]\<close>: the text before the first semicolon.\<close>

definition split_first :: "char \<Rightarrow> string \<Rightarrow> string" where
  "split_first sep s = takeWhile (\<lambda>c. c \<noteq> sep) s"

text \<open>\<open>s.split(sep)\<close> on a separator of one code unit, and \<open>parts.join(sep)\<close>.\<close>

fun split_on :: "char \<Rightarrow> string \<Rightarrow> string list" where
  "split_on sep [] = [Nil]"
| "split_on sep (c # cs) =
     (if c = sep then [] # split_on sep cs
      else (case split_on sep cs of
              [] \<Rightarrow> [c # Nil]
            | p # ps \<Rightarrow> (c # p) # ps))"

fun join_with :: "char \<Rightarrow> string list \<Rightarrow> string" where
  "join_with sep [] = []"
| "join_with sep [p] = p"
| "join_with sep (p # q # ps) = p @ sep # join_with sep (q # ps)"

subsection \<open>The extension of a media file\<close>

definition MIME_TO_EXT :: "(string \<times> string) list" where
  "MIME_TO_EXT =
     [(''image/jpeg'', ''jpg''), (''image/jpg'', ''jpg''), (''image/png'', ''png''),
      (''image/gif'', ''gif''), (''image/webp'', ''webp''), (''video/mp4'', ''mp4''),
      (''video/webm'', ''webm'')]"

text \<open>
  \<open>MIME_TO_EXT\<close> is a plain object, so \<open>MIME_TO_EXT[key]\<close> also finds what the object
  inherits from \<open>Object.prototype\<close>, and every such value is truthy. \<open>getExtension\<close> then
  returns that value, which is no string, and the template literal of the export turns it
  into text. \<open>OBJECT_PROTOTYPE\<close> lists the inherited properties with that text, as V8
  prints it.
\<close>

definition native_function :: "string \<Rightarrow> string" where
  "native_function name = ''function '' @ name @ ''() { [native code] }''"

definition OBJECT_PROTOTYPE :: "(string \<times> string) list" where
  "OBJECT_PROTOTYPE =
     [(''constructor'', native_function ''Object''),
      (''__defineGetter__'', native_function ''__defineGetter__''),
      (''__defineSetter__'', native_function ''__defineSetter__''),
      (''hasOwnProperty'', native_function ''hasOwnProperty''),
      (''__lookupGetter__'', native_function ''__lookupGetter__''),
      (''__lookupSetter__'', native_function ''__lookupSetter__''),
      (''isPrototypeOf'', native_function ''isPrototypeOf''),
      (''propertyIsEnumerable'', native_function ''propertyIsEnumerable''),
      (''toString'', native_function ''toString''),
      (''valueOf'', native_function ''valueOf''),
      (''__proto__'', ''[object Object]''),
      (''toLocaleString'', native_function ''toLocaleString'')]"

text \<open>
  \<open>getExtension\<close>, its result as the template literal prints it. A \<open>null\<close> or empty
  \<open>mimeType\<close> is falsy and gives the default of the item type. The parameter \<open>url\<close> is
  unused in the source, too.
\<close>

definition getExtension :: "string option \<Rightarrow> string \<Rightarrow> MediaType \<Rightarrow> string" where
  "getExtension mimeType u itemType =
     (let dflt = (if itemType = Video then ''mp4'' else ''jpg'')
      in case mimeType of
           None \<Rightarrow> dflt
         | Some m \<Rightarrow>
             if m = [] then dflt
             else
               let cleanMime = toLowerCase (trim (split_first CHR '';'' m))
               in case map_of (MIME_TO_EXT @ OBJECT_PROTOTYPE) cleanMime of
                    Some ext \<Rightarrow> ext
                  | None \<Rightarrow>
                      if includesStr cleanMime ''jpeg'' \<or> includesStr cleanMime ''jpg'' then ''jpg''
                      else if includesStr cleanMime ''png'' then ''png''
                      else if includesStr cleanMime ''mp4'' then ''mp4''
                      else dflt)"

subsection \<open>JSON values and the platform\<close>

type_synonym bytes = "8 word list"

record Blob =
  blob_bytes :: bytes
  blob_type :: string

text \<open>
  A JSON number is an integer here. An object is the list of its properties in their
  order, no name twice, as \<open>JSON.parse\<close> yields it: reading a property is \<open>map_of\<close>,
  writing one is \<open>AList.update\<close>.
\<close>

datatype json =
    JNull
  | JBool bool
  | JNum int
  | JStr string
  | JArr "json list"
  | JObj "(string \<times> json) list"

text \<open>
  What the browser provides is a parameter of the model:
  \<^item> \<open>fetch u\<close> is the blob that \<open>fetch(u)\<close> followed by \<open>blob()\<close> yields, \<open>None\<close> when
    either of them rejects;
  \<^item> \<open>readAsDataURL\<close> is the method of \<open>FileReader\<close>;
  \<^item> \<open>stringify\<close> is \<open>JSON.stringify\<close> followed by the encoding of the text in the
    archive, \<open>parse\<close> is the decoding of an archive entry followed by \<open>JSON.parse\<close>,
    \<open>None\<close> standing for its \<open>SyntaxError\<close>;
  \<^item> the export reads the clock twice: \<open>toISOString\<close> is what
    \<open>new Date().toISOString()\<close> yields for the manifest, \<open>toISOString_later\<close> what it
    yields for the name of the download.
\<close>

record platform =
  fetch :: "string \<Rightarrow> Blob option"
  readAsDataURL :: "Blob \<Rightarrow> string"
  stringify :: "json \<Rightarrow> bytes"
  parse :: "bytes \<Rightarrow> json option"
  toISOString :: string
  toISOString_later :: string

subsection \<open>Archives (JSZip)\<close>

text \<open>
  The files of a \<open>JSZip\<close> object, and the file entries of the zip file generated from it:
  names with contents, in the order of their creation, no name twice. \<open>zip.file(name, data)\<close>
  is \<open>AList.update name data\<close>, \<open>zip.file(name)\<close> is \<open>map_of zip name\<close>. Directory
  entries are left out: their names end with a slash, \<open>zip.file(name)\<close> never returns one.
\<close>

type_synonym archive = "(string \<times> bytes) list"

text \<open>
  \<open>JSZip.loadAsync\<close> does not keep the names of the entries as they are written in the zip
  file: it stores each entry under the name that \<open>resolve\<close> of the library (\<open>utils.js\<close>)
  makes of it. \<open>resolve\<close> splits the name at the slashes, then goes through the parts:
  it skips a part \<open>.\<close> and an empty part other than the first and the last, a part \<open>..\<close>
  pops the last part kept so far (if any), and every other part is kept; it joins what it
  kept with slashes. An entry read later replaces one of the same resolved name. An entry
  of the zip file whose name ends with a slash is read as a directory, not as a file.
\<close>

fun resolve_loop :: "nat \<Rightarrow> nat \<Rightarrow> string list \<Rightarrow> string list \<Rightarrow> string list" where
  "resolve_loop index n [] result = result"
| "resolve_loop index n (part # parts) result =
     (if part = ''.'' \<or> (part = [] \<and> index \<noteq> 0 \<and> index \<noteq> n - 1)
      then resolve_loop (index + 1) n parts result
      else if part = ''..'' then resolve_loop (index + 1) n parts (butlast result)
      else resolve_loop (index + 1) n parts (result @ [part]))"

definition jszip_resolve :: "string \<Rightarrow> string" where
  "jszip_resolve path =
     (let parts = split_on CHR ''/'' path
      in join_with CHR ''/'' (resolve_loop 0 (length parts) parts []))"

definition is_directory :: "string \<Rightarrow> bool" where
  "is_directory name \<longleftrightarrow> name \<noteq> [] \<and> last name = CHR ''/''"

definition load_entry :: "string \<times> bytes \<Rightarrow> archive \<Rightarrow> archive" where
  "load_entry entry zp =
     (if is_directory (fst entry) then zp
      else AList.update (jszip_resolve (fst entry)) (snd entry) zp)"

definition loadAsync :: "archive \<Rightarrow> archive" where
  "loadAsync entries = fold load_entry entries []"

text \<open>The browser state that an export touches: the downloads started, oldest first.\<close>

record browser =
  downloads :: "(string \<times> archive) list"

subsection \<open>Items as JSON\<close>

text \<open>
  A \<open>MediaItem\<close> as the object that \<open>JSON.stringify\<close> writes and \<open>JSON.parse\<close> reads
  back: the fields present, in the order of the declaration; an optional field that is
  \<open>undefined\<close> is left out.
\<close>

definition json_of_type :: "MediaType \<Rightarrow> json" where
  "json_of_type t = JStr (case t of Image \<Rightarrow> ''image'' | Video \<Rightarrow> ''video'')"

definition opt_field :: "string \<Rightarrow> ('a \<Rightarrow> json) \<Rightarrow> 'a option \<Rightarrow> (string \<times> json) list" where
  "opt_field k f v = (case v of None \<Rightarrow> [] | Some x \<Rightarrow> [(k, f x)])"

definition json_of_item :: "MediaItem \<Rightarrow> json" where
  "json_of_item it =
     JObj ([(''id'', JStr (item_id it)), (''type'', json_of_type (item_type it)),
            (''url'', JStr (url it)), (''isReal'', JBool (isReal it)),
            (''title'', JStr (title it)), (''explanation'', JStr (explanation it)),
            (''tips'', JArr (map JStr (tips it))), (''category'', JStr (category it))]
           @ opt_field ''shortTip'' JStr (shortTip it)
           @ opt_field ''aiModel'' JStr (aiModel it)
           @ opt_field ''isCustom'' JBool (isCustom it))"

subsection \<open>The content store\<close>

text \<open>
  The object store \<open>custom_media\<close> of IndexedDB, with key path \<open>id\<close>. The application
  reads and writes it at the type \<open>MediaItem\<close> (\<open>request.result as MediaItem[]\<close>), and
  \<open>store\<close> is the store as that code sees it: a list of items, at most one for each id.
  \<open>put\<close> replaces the item of the same id or adds the item. The list is in the order of
  insertion, the real store hands its items out in the order of their keys. Opening the
  database is taken to succeed. The import writes parsed JSON into the store unchecked:
  for it the store is modelled below as the objects it holds (\<open>object_store\<close>).
\<close>

type_synonym store = "MediaItem list"

fun put :: "MediaItem \<Rightarrow> store \<Rightarrow> store" where
  "put it [] = [it]"
| "put it (x # xs) = (if item_id x = item_id it then it # xs else x # put it xs)"

definition lookup :: "store \<Rightarrow> string \<Rightarrow> MediaItem option" where
  "lookup db k = find (\<lambda>j. item_id j = k) db"

definition saveItem :: "MediaItem \<Rightarrow> store \<Rightarrow> store" where
  "saveItem item db = put (item\<lparr>isCustom := Some True\<rparr>) db"

definition deleteItem :: "string \<Rightarrow> store \<Rightarrow> store" where
  "deleteItem k db = filter (\<lambda>j. item_id j \<noteq> k) db"

text \<open>
  What \<open>loadLocalConfig\<close> finds at \<open>/game_data.json\<close>: \<open>Unavailable\<close> when the request
  fails, the response is not ok or its body is not JSON; \<open>NoItemList\<close> when the document
  has no array \<open>items\<close>; else the items, which the source types as \<open>MediaItem\<close>.
\<close>

datatype local_config = Unavailable | NoItemList | ItemList "MediaItem list"

definition loadLocalConfig :: "local_config \<Rightarrow> MediaItem list" where
  "loadLocalConfig lc =
     (case lc of
        ItemList its \<Rightarrow> map (\<lambda>item. item\<lparr>isCustom := Some True\<rparr>) its
      | _ \<Rightarrow> [])"

text \<open>
  A JavaScript \<open>Map\<close> with string keys is an association list in insertion order:
  \<open>set\<close> on a key that is present keeps its position, which is \<open>AList.update\<close>.
\<close>

definition map_set_all ::
    "MediaItem list \<Rightarrow> (string \<times> MediaItem) list \<Rightarrow> (string \<times> MediaItem) list" where
  "map_set_all its m = fold (\<lambda>item. AList.update (item_id item) item) its m"

definition getAllItems :: "store \<Rightarrow> local_config \<Rightarrow> MediaItem list" where
  "getAllItems db lc =
     (let dbItems = db;
          localItems = loadLocalConfig lc;
          itemMap = map_set_all dbItems (map_set_all localItems [])
      in map snd itemMap)"

subsection \<open>The content store as the import sees it\<close>

text \<open>
  \<open>saveItem\<close> on a value that need not be a \<open>MediaItem\<close>. The store keeps any object
  whose \<open>id\<close> is a valid key of IndexedDB: a string, a number, or an array of valid keys.
  \<open>put\<close> throws a \<open>DataError\<close> when the value has no \<open>id\<close> or an \<open>id\<close> that is no valid
  key; it replaces the object of the same key, keys being compared by their structure.
  The spread \<open>{...item, isCustom: true}\<close> of a value that is no object has no \<open>id\<close>.
\<close>

type_synonym object_store = "json list"

fun valid_key :: "json \<Rightarrow> bool" where
  "valid_key (JStr s) = True"
| "valid_key (JNum n) = True"
| "valid_key (JArr ks) = (\<forall>k \<in> set ks. valid_key k)"
| "valid_key _ = False"

fun key_of :: "json \<Rightarrow> json option" where
  "key_of (JObj fs) =
     (case map_of fs ''id'' of
        Some k \<Rightarrow> if valid_key k then Some k else None
      | None \<Rightarrow> None)"
| "key_of _ = None"

fun put_object :: "json \<Rightarrow> object_store \<Rightarrow> object_store" where
  "put_object obj [] = [obj]"
| "put_object obj (x # xs) = (if key_of x = key_of obj then obj # xs else x # put_object obj xs)"

definition object_lookup :: "object_store \<Rightarrow> json \<Rightarrow> json option" where
  "object_lookup db k = find (\<lambda>obj. key_of obj = Some k) db"

fun saveObject :: "json \<Rightarrow> object_store \<Rightarrow> js_error + object_store" where
  "saveObject (JObj fs) db =
     (let obj = JObj (AList.update ''isCustom'' (JBool True) fs)
      in case key_of obj of
           None \<Rightarrow> Inl DataError
         | Some k \<Rightarrow> Inr (put_object obj db))"
| "saveObject _ db = Inl DataError"

subsection \<open>Export\<close>

text \<open>The blob of an item, for a \<open>data:\<close> url or a path under \<open>media/\<close>; else \<open>null\<close>.\<close>

definition resolve_blob :: "platform \<Rightarrow> MediaItem \<Rightarrow> Blob option" where
  "resolve_blob env item =
     (if startsWith (url item) ''data:'' then fetch env (url item)
      else if startsWith (url item) ''media/'' then fetch env (url item)
      else None)"

definition media_filename :: "MediaItem \<Rightarrow> Blob \<Rightarrow> string" where
  "media_filename item blob =
     item_id item @ ''.'' @ getExtension (Some (blob_type blob)) (url item) (item_type item)"

text \<open>One turn of the loop over \<open>allItems\<close>, on the zip object and \<open>processedItems\<close>.\<close>

definition export_item ::
    "platform \<Rightarrow> MediaItem \<Rightarrow> archive \<times> MediaItem list \<Rightarrow> archive \<times> MediaItem list" where
  "export_item env item acc =
     (case acc of (zp, processedItems) \<Rightarrow>
        (case resolve_blob env item of
           Some blob \<Rightarrow>
             let filename = media_filename item blob
             in (AList.update (''media/'' @ filename) (blob_bytes blob) zp,
                 processedItems @ [item\<lparr>url := ''media/'' @ filename\<rparr>])
         | None \<Rightarrow> (zp, processedItems @ [item])))"

definition exportData :: "platform \<Rightarrow> MediaItem list \<Rightarrow> json" where
  "exportData env processedItems =
     JObj [(''version'', JNum 1), (''timestamp'', JStr (toISOString env)),
           (''items'', JArr (map json_of_item processedItems))]"

definition exportGamePack ::
    "platform \<Rightarrow> store \<Rightarrow> local_config \<Rightarrow> browser \<Rightarrow> (js_error + unit) \<times> browser" where
  "exportGamePack env db lc br =
     (let allItems = getAllItems db lc
      in if length allItems = 0 then (Inl (Error ''No items to export''), br)
         else
           case fold (export_item env) allItems ([], []) of
             (zp, processedItems) \<Rightarrow>
               let jsonStr = stringify env (exportData env processedItems);
                   zip1 = AList.update ''game_data.json'' jsonStr zp;
                   zip2 = AList.update ''data.json'' jsonStr zip1;
                   name = ''real-or-ai-pack-'' @ take 10 (toISOString_later env) @ ''.zip''
               in (Inr (), br\<lparr>downloads := downloads br @ [(name, zip2)]\<rparr>))"

subsection \<open>Import\<close>

text \<open>
  The blob that JSZip hands out for an entry carries the bytes of the entry and an empty
  type.
\<close>

definition zip_blob :: "bytes \<Rightarrow> Blob" where
  "zip_blob b = \<lparr> blob_bytes = b, blob_type = [] \<rparr>"

text \<open>
  The loop over \<open>manifest.items\<close>, on the store and \<open>count\<close>; \<open>zp\<close> is the loaded
  archive. Reading \<open>item.url.startsWith\<close> throws a \<open>TypeError\<close> unless the element is an
  object whose \<open>url\<close> is a string. An error ends the import; the error value does not keep
  the store, into which the elements before have been saved.
\<close>

fun import_items ::
    "platform \<Rightarrow> archive \<Rightarrow> json list \<Rightarrow> object_store \<times> nat \<Rightarrow>
       js_error + object_store \<times> nat" where
  "import_items env zp [] acc = Inr acc"
| "import_items env zp (JObj fs # rest) (db, count) =
     (case map_of fs ''url'' of
        Some (JStr u) \<Rightarrow>
          if startsWith u ''media/'' then
            (case map_of zp u of
               Some mediaFile \<Rightarrow>
                 let dataUrl = readAsDataURL env (zip_blob mediaFile)
                 in (case saveObject (JObj (AList.update ''url'' (JStr dataUrl) fs)) db of
                       Inl e \<Rightarrow> Inl e
                     | Inr db' \<Rightarrow> import_items env zp rest (db', count + 1))
             | None \<Rightarrow> import_items env zp rest (db, count))
          else if startsWith u ''data:'' then
            (case saveObject (JObj fs) db of
               Inl e \<Rightarrow> Inl e
             | Inr db' \<Rightarrow> import_items env zp rest (db', count + 1))
          else import_items env zp rest (db, count)
      | _ \<Rightarrow> Inl TypeError)"
| "import_items env zp (_ # rest) acc = Inl TypeError"

text \<open>\<open>manifest.items\<close> when it is an array. Reading a property of \<open>null\<close> throws.\<close>

fun manifest_items :: "json \<Rightarrow> js_error + json list option" where
  "manifest_items JNull = Inl TypeError"
| "manifest_items (JObj fs) =
     (case map_of fs ''items'' of Some (JArr its) \<Rightarrow> Inr (Some its) | _ \<Rightarrow> Inr None)"
| "manifest_items _ = Inr None"

definition find_manifest :: "archive \<Rightarrow> bytes option" where
  "find_manifest zp =
     (case map_of zp ''data.json'' of Some f \<Rightarrow> Some f | None \<Rightarrow> map_of zp ''game_data.json'')"

text \<open>
  \<open>importGamePack\<close>. The argument \<open>file\<close> is the zip file by its entries, \<open>None\<close> when the
  file is no zip file, and \<open>JSZip.loadAsync\<close> throws.
\<close>

definition importGamePack ::
    "platform \<Rightarrow> archive option \<Rightarrow> object_store \<Rightarrow> js_error + object_store \<times> nat" where
  "importGamePack env file db =
     (case file of
        None \<Rightarrow> Inl ZipError
      | Some entries \<Rightarrow>
          let zp = loadAsync entries
          in (case find_manifest zp of
                None \<Rightarrow> Inl (Error ''Invalid Game Pack: missing data.json or game_data.json'')
              | Some manifestFile \<Rightarrow>
                  (case parse env manifestFile of
                     None \<Rightarrow> Inl SyntaxError
                   | Some manifest \<Rightarrow>
                       (case manifest_items manifest of
                          Inl e \<Rightarrow> Inl e
                        | Inr None \<Rightarrow> Inl (Error ''Invalid Game Pack: corrupt data format'')
                        | Inr (Some its) \<Rightarrow> import_items env zp its (db, 0)))))"

subsection \<open>Notions used in the statements about the store and the codec\<close>

text \<open>
  An id-keyed \<open>Map\<close> as \<open>getAllItems\<close> builds it: no key twice, every item under its own
  id.
\<close>

definition keyed :: "(string \<times> MediaItem) list \<Rightarrow> bool" where
  "keyed m \<longleftrightarrow> distinct (map fst m) \<and> (\<forall>k v. map_of m k = Some v \<longrightarrow> item_id v = k)"

text \<open>
  What the export loop pushes to \<open>processedItems\<close> for an item, the name of the entry it
  writes for the item, and the manifest that the export writes: they serve to state the
  round trip.
\<close>

definition processed_item :: "platform \<Rightarrow> MediaItem \<Rightarrow> MediaItem" where
  "processed_item env item =
     (case resolve_blob env item of
        Some blob \<Rightarrow> item\<lparr>url := ''media/'' @ media_filename item blob\<rparr>
      | None \<Rightarrow> item)"

definition media_path :: "MediaItem \<Rightarrow> Blob \<Rightarrow> string" where
  "media_path item blob = ''media/'' @ media_filename item blob"

definition export_manifest :: "platform \<Rightarrow> store \<Rightarrow> local_config \<Rightarrow> json" where
  "export_manifest env db lc = exportData env (map (processed_item env) (getAllItems db lc))"

text \<open>
  An item of the collection keeps its entry through \<open>loadAsync\<close>: the name of its entry
  is not changed by \<open>resolve\<close>, and the entry of no other item gets that name.
\<close>

definition keeps_entry :: "platform \<Rightarrow> MediaItem list \<Rightarrow> MediaItem \<Rightarrow> Blob \<Rightarrow> bool" where
  "keeps_entry env its item blob \<longleftrightarrow>
     jszip_resolve (media_path item blob) = media_path item blob \<and>
     (\<forall>other \<in> set its.
        case resolve_blob env other of
          None \<Rightarrow> True
        | Some b \<Rightarrow> jszip_resolve (media_path other b) = media_path item blob \<longrightarrow> other = item)"

text \<open>The turn of the import loop on an element that is the JSON of a \<open>MediaItem\<close>.\<close>

definition import_typed ::
    "platform \<Rightarrow> archive \<Rightarrow> MediaItem \<Rightarrow> object_store \<Rightarrow> object_store" where
  "import_typed env zp item db =
     (if startsWith (url item) ''media/'' then
        (case map_of zp (url item) of
           Some mediaFile \<Rightarrow>
             put_object
               (json_of_item
                  (item\<lparr>url := readAsDataURL env (zip_blob mediaFile), isCustom := Some True\<rparr>))
               db
         | None \<Rightarrow> db)
      else if startsWith (url item) ''data:'' then
        put_object (json_of_item (item\<lparr>isCustom := Some True\<rparr>)) db
      else db)"

text \<open>
  The \<open>url\<close> of an element of a manifest, when the element is an object and its \<open>url\<close> a
  string. The elements that an import counts: a \<open>url\<close> under \<open>media/\<close> whose file is in
  the loaded archive, or a \<open>data:\<close> url. An element goes through the import when it has a
  \<open>url\<close> and, if it is counted, an \<open>id\<close> that is a valid key of the store.
\<close>

fun url_of :: "json \<Rightarrow> string option" where
  "url_of (JObj fs) = (case map_of fs ''url'' of Some (JStr u) \<Rightarrow> Some u | _ \<Rightarrow> None)"
| "url_of _ = None"

definition counted :: "archive \<Rightarrow> json \<Rightarrow> bool" where
  "counted zp raw =
     (case url_of raw of
        Some u \<Rightarrow> if startsWith u ''media/'' then map_of zp u \<noteq> None else startsWith u ''data:''
      | None \<Rightarrow> False)"


text \<open>The object that the import saves for a counted element of the manifest.\<close>

definition imported_object :: "platform \<Rightarrow> archive \<Rightarrow> json \<Rightarrow> json" where
  "imported_object env zp raw =
     (case raw of
        JObj fs \<Rightarrow>
          JObj (AList.update ''isCustom'' (JBool True)
                  (case url_of raw of
                     Some u \<Rightarrow>
                       (case map_of zp u of
                          Some mediaFile \<Rightarrow>
                            if startsWith u ''media/''
                            then AList.update ''url''
                                   (JStr (readAsDataURL env (zip_blob mediaFile))) fs
                            else fs
                        | None \<Rightarrow> fs)
                   | None \<Rightarrow> fs))
      | _ \<Rightarrow> raw)"

subsection \<open>A concrete platform and concrete archives\<close>

text \<open>
  A platform that knows one data url and one blob, and some JSON documents with their
  encodings; archives and manifests to run the export and the import on.
\<close>

definition demo_blob :: Blob where
  "demo_blob = \<lparr> blob_bytes = [0], blob_type = ''image/png'' \<rparr>"

definition demo_items :: "MediaItem list" where
  "demo_items =
     [(mk_item ''a'' True)\<lparr>url := ''media/a.png''\<rparr>,
      mk_item ''b'' False,
      (mk_item ''c'' True)\<lparr>url := ''https://example.org/c.png''\<rparr>,
      (mk_item ''d'' False)\<lparr>url := ''media/d.png''\<rparr>]"

definition demo_manifest :: json where
  "demo_manifest =
     JObj [(''version'', JNum 1), (''timestamp'', JStr ''2024-01-01T00:00:00.000Z''),
           (''items'', JArr (map json_of_item demo_items))]"

text \<open>
  Manifests with one element: an empty object; an object with a \<open>url\<close> and no \<open>id\<close>; an
  object with an \<open>id\<close> and a \<open>url\<close> and nothing else.
\<close>

definition malformed_manifest :: json where
  "malformed_manifest = JObj [(''items'', JArr [JObj []])]"

definition keyless_manifest :: json where
  "keyless_manifest =
     JObj [(''items'', JArr [JObj [(''url'', JStr ''data:image/png;base64,AA=='')]])]"

definition partial_manifest :: json where
  "partial_manifest =
     JObj [(''items'',
            JArr [JObj [(''id'', JStr ''q''), (''url'', JStr ''data:image/png;base64,AA=='')]])]"

text \<open>
  A manifest with three elements: the object above; an object with no \<open>id\<close> whose \<open>url\<close>
  names a file that the archive does not hold; and \<open>null\<close>.
\<close>

definition mixed_manifest :: json where
  "mixed_manifest =
     JObj [(''items'',
            JArr [JObj [(''id'', JStr ''q''), (''url'', JStr ''data:image/png;base64,AA=='')],
                  JObj [(''url'', JStr ''media/r.png'')],
                  JNull])]"

definition corrupt_manifest :: json where
  "corrupt_manifest = JObj [(''version'', JNum 1), (''items'', JStr ''none'')]"

definition exported_manifest :: json where
  "exported_manifest =
     JObj [(''version'', JNum 1), (''timestamp'', JStr ''2024-01-01T00:00:00.000Z''),
           (''items'', JArr [json_of_item ((mk_item ''A'' True)\<lparr>url := ''media/A.png''\<rparr>)])]"

definition escaping_manifest :: json where
  "escaping_manifest =
     JObj [(''version'', JNum 1), (''timestamp'', JStr ''2024-01-01T00:00:00.000Z''),
           (''items'',
            JArr [json_of_item ((mk_item ''../x'' True)\<lparr>url := ''media/../x.png''\<rparr>)])]"

definition demo_codec :: "(bytes \<times> json) list" where
  "demo_codec =
     [([1], malformed_manifest), ([2], demo_manifest), ([3], exported_manifest),
      ([4], corrupt_manifest), ([5], escaping_manifest), ([6], keyless_manifest),
      ([7], partial_manifest), ([8], mixed_manifest)]"

definition demo_platform :: platform where
  "demo_platform =
     \<lparr> fetch = (\<lambda>u. if u = ''data:image/png;base64,AA=='' then Some demo_blob else None),
       readAsDataURL = (\<lambda>b. ''data:application/octet-stream;base64,''
                            @ (if blob_bytes b = [0] then ''AA=='' else [])),
       stringify = (\<lambda>j. case find (\<lambda>p. snd p = j) demo_codec of
                            Some p \<Rightarrow> fst p | None \<Rightarrow> []),
       parse = map_of demo_codec,
       toISOString = ''2024-01-01T00:00:00.000Z'',
       toISOString_later = ''2024-01-01T00:00:00.002Z'' \<rparr>"







text \<open>The archive that the export makes of one item with the id \<open>../x\<close>.\<close>

definition escaping_archive :: archive where
  "escaping_archive =
     [(''media/../x.png'', [0]), (''game_data.json'', [5]), (''data.json'', [5])]"

definition no_downloads :: browser where
  "no_downloads = \<lparr> downloads = [] \<rparr>"

section \<open>Idle watchdog (ReviewScreen)\<close>

text \<open>
  Time is virtual: \<open>now\<close> is the clock in milliseconds, a timeout set with delay \<open>d\<close> is
  due at \<open>now + d\<close>, and \<open>advance\<close> below lets the clock run and fires each pending
  timeout when it is due. A timer of the window is its id, its due time and its callback;
  the ids that \<open>setTimeout\<close> hands out are positive.
\<close>

datatype timer_callback = IdleCallback | ResetCallback

record timer =
  timer_id :: nat
  due :: nat
  callback :: timer_callback

text \<open>
  The state of the watchdog: the clock, the pending timers of the window (in the order of
  their creation), the two refs, the state \<open>showIdleWarning\<close> (which, after the render,
  is also \<open>isWarningVisibleRef\<close>), the variable \<open>lastRun\<close> of the throttle, and the times
  of the calls of the prop \<open>onBackToHome\<close>.
\<close>

record watchdog =
  now :: nat
  timers :: "timer list"
  nextTimerId :: nat
  idleTimerRef :: "nat option"
  resetTimerRef :: "nat option"
  showIdleWarning :: bool
  lastRun :: nat
  backToHomeCalls :: "nat list"

definition IDLE_TIMEOUT :: nat where "IDLE_TIMEOUT = 60000"
definition COUNTDOWN_DURATION :: nat where "COUNTDOWN_DURATION = 15000"

definition setTimeout :: "timer_callback \<Rightarrow> nat \<Rightarrow> watchdog \<Rightarrow> nat \<times> watchdog" where
  "setTimeout cb delay s =
     (nextTimerId s,
      s\<lparr> timers := timers s @ [\<lparr> timer_id = nextTimerId s, due = now s + delay, callback = cb \<rparr>],
         nextTimerId := nextTimerId s + 1 \<rparr>)"

definition clearTimeout :: "nat \<Rightarrow> watchdog \<Rightarrow> watchdog" where
  "clearTimeout i s = s\<lparr>timers := filter (\<lambda>tm. timer_id tm \<noteq> i) (timers s)\<rparr>"

text \<open>\<open>if (ref.current) window.clearTimeout(ref.current)\<close>: \<open>null\<close> and \<open>0\<close> are falsy.\<close>

definition clearRef :: "nat option \<Rightarrow> watchdog \<Rightarrow> watchdog" where
  "clearRef r s = (case r of None \<Rightarrow> s | Some i \<Rightarrow> if i \<noteq> 0 then clearTimeout i s else s)"

definition startIdleTimer :: "watchdog \<Rightarrow> watchdog" where
  "startIdleTimer s =
     (let s1 = clearRef (idleTimerRef s) s;
          s2 = clearRef (resetTimerRef s1) s1
      in case setTimeout IdleCallback IDLE_TIMEOUT s2 of
           (i, s3) \<Rightarrow> s3\<lparr>idleTimerRef := Some i\<rparr>)"

text \<open>The callbacks of the idle timer and of the reset timer.\<close>

definition idleCallback :: "watchdog \<Rightarrow> watchdog" where
  "idleCallback s =
     (case setTimeout ResetCallback COUNTDOWN_DURATION (s\<lparr>showIdleWarning := True\<rparr>) of
        (i, s1) \<Rightarrow> s1\<lparr>resetTimerRef := Some i\<rparr>)"

definition resetCallback :: "watchdog \<Rightarrow> watchdog" where
  "resetCallback s = s\<lparr>backToHomeCalls := backToHomeCalls s @ [now s]\<rparr>"

definition handleUserActivity :: "watchdog \<Rightarrow> watchdog" where
  "handleUserActivity s = (if showIdleWarning s then s else startIdleTimer s)"

text \<open>The listener of the activity events, at the time \<open>now\<close>.\<close>

definition throttledHandler :: "watchdog \<Rightarrow> watchdog" where
  "throttledHandler s =
     (if int (now s) - int (lastRun s) > 1000
      then (handleUserActivity s)\<lparr>lastRun := now s\<rparr>
      else s)"

definition handleResumeGame :: "watchdog \<Rightarrow> watchdog" where
  "handleResumeGame s = startIdleTimer (s\<lparr>showIdleWarning := False\<rparr>)"

text \<open>The refs and the state at mount time \<open>t0\<close>; the effect then starts the idle timer.\<close>

definition newWatchdog :: "nat \<Rightarrow> watchdog" where
  "newWatchdog t0 =
     \<lparr> now = t0, timers = [], nextTimerId = 1, idleTimerRef = None, resetTimerRef = None,
       showIdleWarning = False, lastRun = 0, backToHomeCalls = [] \<rparr>"

definition mountWatchdog :: "nat \<Rightarrow> watchdog" where
  "mountWatchdog t0 = startIdleTimer (newWatchdog t0)"

definition unmountWatchdog :: "watchdog \<Rightarrow> watchdog" where
  "unmountWatchdog s =
     (let s1 = clearRef (idleTimerRef s) s in clearRef (resetTimerRef s1) s1)"

text \<open>
  The pending timer that fires next: the earliest due, the older one of two that are due
  together. \<open>fire\<close> runs its callback, at its due time.
\<close>

fun earliest :: "timer list \<Rightarrow> timer option" where
  "earliest [] = None"
| "earliest (x # xs) =
     (case earliest xs of
        None \<Rightarrow> Some x
      | Some y \<Rightarrow> if due x \<le> due y then Some x else Some y)"

definition fire :: "timer \<Rightarrow> watchdog \<Rightarrow> watchdog" where
  "fire tm s =
     (let s1 = s\<lparr>timers := remove1 tm (timers s), now := max (now s) (due tm)\<rparr>
      in case callback tm of
           IdleCallback \<Rightarrow> idleCallback s1
         | ResetCallback \<Rightarrow> resetCallback s1)"

text \<open>
  \<open>advance t\<close>: the clock runs to \<open>t\<close>, and every timer due by then fires, in order. It
  terminates since an idle callback sets one reset timer and a reset callback sets none.
\<close>

definition timer_weight :: "timer \<Rightarrow> nat" where
  "timer_weight tm = (case callback tm of IdleCallback \<Rightarrow> 2 | ResetCallback \<Rightarrow> 1)"

definition pending_weight :: "watchdog \<Rightarrow> nat" where
  "pending_weight s = sum_list (map timer_weight (timers s))"

function advance :: "nat \<Rightarrow> watchdog \<Rightarrow> watchdog" where
  "advance t s =
     (case earliest (timers s) of
        None \<Rightarrow> s\<lparr>now := max (now s) t\<rparr>
      | Some tm \<Rightarrow>
          if due tm \<le> t then advance t (fire tm s) else s\<lparr>now := max (now s) t\<rparr>)"
  by pat_completeness auto
termination
proof (relation "measure (\<lambda>(t, s). pending_weight s)")
  show "wf (measure (\<lambda>(t, s). pending_weight s))" by simp
next
  fix t :: nat and s :: watchdog and tm :: timer
  assume e: "earliest (timers s) = Some tm" and "due tm \<le> t"
  have mem: "x \<in> set ts" if "earliest ts = Some x" for ts x
    using that by (induction ts arbitrary: x) (auto split: option.splits if_splits)
  have rm: "sum_list (map timer_weight (remove1 x ts)) + timer_weight x
      = sum_list (map timer_weight ts)" if "x \<in> set ts" for ts x
    using that by (induction ts) auto
  from rm [OF mem [OF e]] have "pending_weight (fire tm s) < pending_weight s"
    by (cases "callback tm")
       (simp_all add: fire_def pending_weight_def idleCallback_def resetCallback_def
          setTimeout_def timer_weight_def Let_def)
  then show "((t, fire tm s), (t, s)) \<in> measure (\<lambda>(t, s). pending_weight s)" by simp
qed

declare advance.simps [simp del]

text \<open>
  The states of a mounted watchdog: at most one timer is pending, it is due in the
  future, and the ref of its kind holds its id.
\<close>

definition owned :: "watchdog \<Rightarrow> bool" where
  "owned s \<longleftrightarrow>
     nextTimerId s \<noteq> 0 \<and>
     (case timers s of
        [] \<Rightarrow> True
      | [tm] \<Rightarrow>
          timer_id tm \<noteq> 0 \<and> now s \<le> due tm \<and>
          (case callback tm of
             IdleCallback \<Rightarrow> idleTimerRef s = Some (timer_id tm)
           | ResetCallback \<Rightarrow> resetTimerRef s = Some (timer_id tm))
      | _ \<Rightarrow> False)"

section \<open>Properties of the session controller\<close>

lemmas consts_defs =
  BASE_POINTS_def BONUS_POINTS_def STREAK_THRESHOLD_def MEGA_STREAK_THRESHOLD_def
  BONUS_ROUND_QUALIFIER_def

text \<open>
  C1. An accepted \<open>handleAnswer\<close> (no answer in flight, a current item on screen) returns.
  When the guess equals the ground truth of the current item, the streak grows by exactly
  one, and \<open>100 \<times> m\<close> points are added to the score and written into the appended answer
  record, where \<open>m\<close> is 4 if the new streak is at least 7, else 2 if it is at least 3, else
  1. When the guess is wrong, the streak becomes 0, the score is unchanged and the
  appended record carries 0 points.
\<close>

theorem handleAnswer_scoring:
  assumes "\<not> isProcessing s" and "currentItem s = Some item"
  shows "\<exists>s'. handleAnswer guessed s = Inr s' \<and>
     (guessed = isReal item \<longrightarrow>
        streak s' = streak s + 1 \<and>
        score s' = score s + 100 * (if streak s' \<ge> 7 then 4 else if streak s' \<ge> 3 then 2 else 1) \<and>
        answers s' = answers s @
          [\<lparr> itemId = item_id item, guessedReal = guessed, isCorrect = True, timeTaken = 0,
             pointsEarned = 100 * (if streak s' \<ge> 7 then 4 else if streak s' \<ge> 3 then 2 else 1) \<rparr>]) \<and>
     (guessed \<noteq> isReal item \<longrightarrow>
        streak s' = 0 \<and> score s' = score s \<and>
        answers s' = answers s @
          [\<lparr> itemId = item_id item, guessedReal = guessed, isCorrect = False, timeTaken = 0,
             pointsEarned = 0 \<rparr>])"
  using assms by (simp add: handleAnswer_def Let_def consts_defs)

theorem handleAnswer_scoring_witness:
  "\<exists>s'. handleAnswer True (initGame [mk_item ''A'' True] 30 None) = Inr s' \<and>
     streak s' = 1 \<and> score s' = 100 \<and> map pointsEarned (answers s') = [100]"
proof -
  let ?s = "initGame [mk_item ''A'' True] 30 None"
  have a: "\<not> isProcessing ?s" by (simp add: initGame_def)
  have b: "currentItem ?s = Some (mk_item ''A'' True)"
    by (simp add: initGame_def currentItem_def js_index_def)
  from handleAnswer_scoring [OF a b, of True] obtain s' where
    r: "handleAnswer True ?s = Inr s'" and
    c: "streak s' = streak ?s + 1"
       "score s' = score ?s + 100 * (if streak s' \<ge> 7 then 4 else if streak s' \<ge> 3 then 2 else 1)"
       "answers s' = answers ?s @
          [\<lparr> itemId = item_id (mk_item ''A'' True), guessedReal = True, isCorrect = True,
             timeTaken = 0,
             pointsEarned = 100 * (if streak s' \<ge> 7 then 4 else if streak s' \<ge> 3 then 2 else 1) \<rparr>]"
    by (auto simp: mk_item_def)
  have "streak s' = 1" using c(1) by (simp add: initGame_def initial_streak_def)
  then show ?thesis using r c by (simp add: initGame_def)
qed

lemmas effect_defs =
  handleBonusAnswer_def handleBonusResult_def bonusTimerEffect_def bonusTick_def
  mainTimerEffect_def mainTick_def startBonusRound_def onEndGame_def earnedBonusEffect_def
  debugEffect_def answerTimeout_def bonusNext_def

subsection \<open>Entering the bonus round\<close>

lemma js_index_filter_mod:
  "filter P xs \<noteq> [] \<Longrightarrow>
     \<exists>x. js_index (filter P xs) (r mod length (filter P xs)) = Some x \<and> x \<in> set xs \<and> P x"
proof -
  assume ne: "filter P xs \<noteq> []"
  let ?fs = "filter P xs"
  have lt: "r mod length ?fs < length ?fs" using ne by simp
  then have "?fs ! (r mod length ?fs) \<in> set ?fs" by (rule nth_mem)
  then show ?thesis using lt by (auto simp: js_index_def)
qed

lemma js_index_0: "js_index xs 0 = (case xs of [] \<Rightarrow> None | x # _ \<Rightarrow> Some x)"
  by (cases xs) (simp_all add: js_index_def)

text \<open>
  A pool with a single authentic item and no other: the main timer is at 0 with the
  qualification earned, and the bonus round is entered all the same, with no call of
  \<open>onEndGame\<close>.
\<close>

theorem bonus_not_skipped_counterexample:
  "map isReal (items (bonus_ready [mk_item ''A'' True])) = [True] \<and>
   showBonusRound (mainTimerEffect 0 0 False (bonus_ready [mk_item ''A'' True])) \<and>
   endGameCalls (mainTimerEffect 0 0 False (bonus_ready [mk_item ''A'' True])) = []"
  by (simp add: mainTimerEffect_def startBonusRound_def bonus_ready_def initGame_def
      js_index_def mk_item_def Let_def)

text \<open>
  C2, amended. When the main timer is at 0 with the bonus qualification earned and no
  bonus attempt made, the bonus round is skipped, and \<open>onEndGame\<close> called with the answer
  log, exactly when the item pool is empty. With a non-empty pool the bonus round is
  entered and \<open>onEndGame\<close> is not called: an item of the required authenticity is picked
  when there is one, and the first item of the pool stands in for a missing one.
\<close>

theorem bonus_skipped_iff_empty_pool:
  assumes "timeLeft s \<le> 0" and "earnedBonus s" and "\<not> showBonusRound s"
    and "bonusResult s = None"
  shows "(items s = [] \<longrightarrow>
            mainTimerEffect r1 r2 swap s = s\<lparr>endGameCalls := endGameCalls s @ [answers s]\<rparr>) \<and>
         (items s \<noteq> [] \<longrightarrow>
            showBonusRound (mainTimerEffect r1 r2 swap s) \<and>
            endGameCalls (mainTimerEffect r1 r2 swap s) = endGameCalls s \<and>
            (\<exists>re a. bonusItems (mainTimerEffect r1 r2 swap s) = Some (re, a) \<and>
                re \<in> set (items s) \<and> a \<in> set (items s) \<and>
                (filter isReal (items s) \<noteq> [] \<longrightarrow> isReal re) \<and>
                (filter isReal (items s) = [] \<longrightarrow> re = hd (items s)) \<and>
                (filter (\<lambda>i. \<not> isReal i) (items s) \<noteq> [] \<longrightarrow> \<not> isReal a) \<and>
                (filter (\<lambda>i. \<not> isReal i) (items s) = [] \<longrightarrow> a = hd (items s))))"
proof (intro conjI impI)
  assume "items s = []"
  then show "mainTimerEffect r1 r2 swap s = s\<lparr>endGameCalls := endGameCalls s @ [answers s]\<rparr>"
    using assms by (simp add: mainTimerEffect_def startBonusRound_def js_index_def onEndGame_def)
next
  assume ne: "items s \<noteq> []"
  then obtain x xs where xs: "items s = x # xs" by (cases "items s") auto
  let ?R = "filter isReal (items s)" and ?A = "filter (\<lambda>i. \<not> isReal i) (items s)"
  obtain re where re:
    "(if length ?R > 0 then js_index ?R (r1 mod length ?R) else js_index (items s) 0) = Some re"
    "re \<in> set (items s)" "?R \<noteq> [] \<longrightarrow> isReal re" "?R = [] \<longrightarrow> re = hd (items s)"
  proof (cases "?R = []")
    case True
    then show ?thesis using that xs by (simp add: js_index_0 del: filter.simps)
  next
    case False
    from js_index_filter_mod [OF this, of r1] show ?thesis using that False by auto
  qed
  obtain a where a:
    "(if length ?A > 0 then js_index ?A (r2 mod length ?A) else js_index (items s) 0) = Some a"
    "a \<in> set (items s)" "?A \<noteq> [] \<longrightarrow> \<not> isReal a" "?A = [] \<longrightarrow> a = hd (items s)"
  proof (cases "?A = []")
    case True
    then show ?thesis using that xs by (simp add: js_index_0 del: filter.simps)
  next
    case False
    from js_index_filter_mod [OF this, of r2] show ?thesis using that False by auto
  qed
  have eq: "mainTimerEffect r1 r2 swap s =
     s\<lparr> bonusItems := Some (re, a), bonusFeedbackItem := None,
        bonusDisplayItems := (if swap then [a, re] else [re, a]),
        bonusTimer := 10, showBonusRound := True \<rparr>"
    using assms re(1) a(1) by (simp add: mainTimerEffect_def startBonusRound_def Let_def)
  show "showBonusRound (mainTimerEffect r1 r2 swap s)" by (simp add: eq)
  show "endGameCalls (mainTimerEffect r1 r2 swap s) = endGameCalls s" by (simp add: eq)
  show "\<exists>re a. bonusItems (mainTimerEffect r1 r2 swap s) = Some (re, a) \<and>
                re \<in> set (items s) \<and> a \<in> set (items s) \<and>
                (filter isReal (items s) \<noteq> [] \<longrightarrow> isReal re) \<and>
                (filter isReal (items s) = [] \<longrightarrow> re = hd (items s)) \<and>
                (filter (\<lambda>i. \<not> isReal i) (items s) \<noteq> [] \<longrightarrow> \<not> isReal a) \<and>
                (filter (\<lambda>i. \<not> isReal i) (items s) = [] \<longrightarrow> a = hd (items s))"
    using re a by (intro exI [of _ re] exI [of _ a]) (simp add: eq)
qed

theorem bonus_skipped_iff_empty_pool_witness:
  "endGameCalls (mainTimerEffect 0 0 False (bonus_ready [])) = [Nil] \<and>
   \<not> showBonusRound (mainTimerEffect 0 0 False (bonus_ready [])) \<and>
   showBonusRound (mainTimerEffect 0 0 False (bonus_ready [mk_item ''A'' True])) \<and>
   endGameCalls (mainTimerEffect 0 0 False (bonus_ready [mk_item ''A'' True])) = []"
  using bonus_skipped_iff_empty_pool [of "bonus_ready []" 0 0 False]
    bonus_skipped_iff_empty_pool [of "bonus_ready [mk_item ''A'' True]" 0 0 False]
  by (simp add: bonus_ready_def initGame_def)

subsection \<open>The bonus answer\<close>

lemma step_bonusResult_latched:
  "bonusResult s = Some r \<Longrightarrow> step e s = Inr s' \<Longrightarrow> bonusResult s' = Some r"
  by (cases e)
     (auto simp: effect_defs handleAnswer_def Let_def
           split: if_splits option.splits prod.splits)

lemma run_bonusResult_latched:
  "bonusResult s = Some r \<Longrightarrow> run es s = Inr s' \<Longrightarrow> bonusResult s' = Some r"
proof (induction es arbitrary: s)
  case Nil
  then show ?case by simp
next
  case (Cons e es)
  then show ?case
    by (auto split: sum.splits dest: step_bonusResult_latched)
qed

text \<open>
  C3. Once a bonus result exists, \<open>handleBonusAnswer\<close> and the bonus timer effect change
  nothing, and no sequence of events changes the result: it is set at most once. With no
  result yet, selecting an item succeeds exactly when the item is not authentic; success
  adds exactly 1000 to the score and failure adds 0; either way exactly one answer record,
  carrying those points, is appended. The bonus timer at 0 with no result sets the result
  to failure and leaves the answer log and the score as they are.
\<close>

theorem bonus_answer_once:
  "(bonusResult s \<noteq> None \<longrightarrow> handleBonusAnswer it s = s \<and> bonusTimerEffect s = s) \<and>
   (\<forall>r es s'. bonusResult s = Some r \<and> run es s = Inr s' \<longrightarrow> bonusResult s' = Some r) \<and>
   (bonusResult s = None \<longrightarrow>
      (bonusResult (handleBonusAnswer it s) = Some Success \<longleftrightarrow> \<not> isReal it) \<and>
      bonusResult (handleBonusAnswer it s) = Some (if isReal it then Fail else Success) \<and>
      score (handleBonusAnswer it s) = score s + (if isReal it then 0 else 1000) \<and>
      answers (handleBonusAnswer it s) = answers s @
        [\<lparr> itemId = item_id it, guessedReal = False, isCorrect = (\<not> isReal it), timeTaken = 0,
           pointsEarned = (if isReal it then 0 else 1000) \<rparr>]) \<and>
   (showBonusRound s \<and> bonusResult s = None \<and> bonusTimer s \<le> 0 \<longrightarrow>
      bonusResult (bonusTimerEffect s) = Some Fail \<and>
      answers (bonusTimerEffect s) = answers s \<and>
      score (bonusTimerEffect s) = score s)"
proof (intro conjI allI impI)
  fix r es s' assume "bonusResult s = Some r \<and> run es s = Inr s'"
  then show "bonusResult s' = Some r" using run_bonusResult_latched by blast
qed (simp_all add: handleBonusAnswer_def handleBonusResult_def bonusTimerEffect_def
        BONUS_POINTS_def Let_def)

lemma in_bonus_simps:
  "showBonusRound in_bonus" "bonusResult in_bonus = None" "score in_bonus = 0"
  "answers in_bonus = []"
  by (simp_all add: in_bonus_def bonus_ready_def mainTimerEffect_def startBonusRound_def
      initGame_def scenario_items_def js_index_def mk_item_def Let_def)

theorem bonus_answer_once_witness:
  "score (handleBonusAnswer (mk_item ''B'' False) in_bonus) = 1000 \<and>
   map pointsEarned (answers (handleBonusAnswer (mk_item ''B'' False) in_bonus)) = [1000] \<and>
   handleBonusAnswer (mk_item ''A'' True) (handleBonusAnswer (mk_item ''B'' False) in_bonus)
     = handleBonusAnswer (mk_item ''B'' False) in_bonus \<and>
   bonusResult (bonusTimerEffect (in_bonus\<lparr>bonusTimer := 0\<rparr>)) = Some Fail \<and>
   answers (bonusTimerEffect (in_bonus\<lparr>bonusTimer := 0\<rparr>)) = []"
proof -
  let ?B = "mk_item ''B'' False"
  let ?s1 = "handleBonusAnswer ?B in_bonus"
  from bonus_answer_once [of in_bonus ?B]
  have a: "bonusResult ?s1 = Some Success" "score ?s1 = 1000"
    "map pointsEarned (answers ?s1) = [1000]"
    by (simp_all add: in_bonus_simps mk_item_def)
  from bonus_answer_once [of ?s1 "mk_item ''A'' True"] a(1)
  have b: "handleBonusAnswer (mk_item ''A'' True) ?s1 = ?s1" by simp
  from bonus_answer_once [of "in_bonus\<lparr>bonusTimer := 0\<rparr>" ?B]
  have c: "bonusResult (bonusTimerEffect (in_bonus\<lparr>bonusTimer := 0\<rparr>)) = Some Fail"
    "answers (bonusTimerEffect (in_bonus\<lparr>bonusTimer := 0\<rparr>)) = []"
    by (simp_all add: in_bonus_simps)
  from a b c show ?thesis by simp
qed

subsection \<open>No exception during play\<close>









subsection \<open>The score and the answer log\<close>

lemma totalScore_snoc: "totalScore (as @ [a]) = totalScore as + pointsEarned a"
  by (simp add: totalScore_def)

lemma step_score_delta:
  "step e s = Inr s' \<Longrightarrow>
     ((answers s' = answers s \<and> score s' = score s) \<or>
      (\<exists>r. answers s' = answers s @ [r] \<and> score s' = score s + pointsEarned r)) \<and>
     (endGameCalls s' = endGameCalls s \<or> endGameCalls s' = endGameCalls s @ [answers s'])"
  by (cases e)
     (auto simp: effect_defs handleAnswer_def Let_def
           split: if_splits option.splits prod.splits)

lemma run_score_inv:
  "score s = totalScore (answers s) \<Longrightarrow> run es s = Inr s' \<Longrightarrow>
     score s' = totalScore (answers s')"
proof (induction es arbitrary: s)
  case Nil
  then show ?case by simp
next
  case (Cons e es)
  from Cons.prems(2) obtain s1 where s1: "step e s = Inr s1" "run es s1 = Inr s'"
    by (auto split: sum.splits)
  from step_score_delta [OF s1(1)] Cons.prems(1) have "score s1 = totalScore (answers s1)"
    by (auto simp: totalScore_snoc)
  from Cons.IH [OF this s1(2)] show ?case .
qed

text \<open>
  C10. Every step of a session either leaves both the answer log and the score as they
  are, or appends exactly one record and adds exactly the points of that record to the
  score; a call of \<open>onEndGame\<close> passes the answer log of that moment. Hence, starting from
  a new session, the score equals the sum of \<open>pointsEarned\<close> over the answer log after
  any sequence of events, the log handed to the summary screens recomputes to the score
  of the game, and a bonus timeout, which appends no record, leaves the score unchanged.
\<close>

theorem score_is_sum_of_points:
  "(step e s = Inr s1 \<longrightarrow>
      ((answers s1 = answers s \<and> score s1 = score s) \<or>
       (\<exists>r. answers s1 = answers s @ [r] \<and> score s1 = score s + pointsEarned r)) \<and>
      (endGameCalls s1 = endGameCalls s \<or> endGameCalls s1 = endGameCalls s @ [answers s1])) \<and>
   (score s = totalScore (answers s) \<and> step e s = Inr s1 \<and>
    endGameCalls s1 \<noteq> endGameCalls s \<longrightarrow>
      totalScore (last (endGameCalls s1)) = score s1) \<and>
   (run es (initGame its d cfg) = Inr s2 \<longrightarrow> score s2 = totalScore (answers s2)) \<and>
   (showBonusRound s \<and> bonusResult s = None \<and> bonusTimer s \<le> 0 \<longrightarrow>
      answers (bonusTimerEffect s) = answers s \<and> score (bonusTimerEffect s) = score s)"
proof (intro conjI impI)
  assume "step e s = Inr s1"
  from step_score_delta [OF this]
  show "(answers s1 = answers s \<and> score s1 = score s) \<or>
       (\<exists>r. answers s1 = answers s @ [r] \<and> score s1 = score s + pointsEarned r)"
    and "endGameCalls s1 = endGameCalls s \<or> endGameCalls s1 = endGameCalls s @ [answers s1]"
    by blast+
next
  assume a: "score s = totalScore (answers s) \<and> step e s = Inr s1 \<and>
    endGameCalls s1 \<noteq> endGameCalls s"
  then have st: "step e s = Inr s1" by simp
  from step_score_delta [OF st] a have "score s1 = totalScore (answers s1)"
    by (auto simp: totalScore_snoc)
  moreover from step_score_delta [OF st] a have "last (endGameCalls s1) = answers s1" by auto
  ultimately show "totalScore (last (endGameCalls s1)) = score s1" by simp
next
  assume "run es (initGame its d cfg) = Inr s2"
  moreover have "score (initGame its d cfg) = totalScore (answers (initGame its d cfg))"
    by (simp add: initGame_def totalScore_def)
  ultimately show "score s2 = totalScore (answers s2)" using run_score_inv by blast
next
  assume "showBonusRound s \<and> bonusResult s = None \<and> bonusTimer s \<le> 0"
  then show "answers (bonusTimerEffect s) = answers s" "score (bonusTimerEffect s) = score s"
    by (simp_all add: bonusTimerEffect_def handleBonusResult_def)
qed

lemma scenario_run:
  "\<exists>s'. run scenario_events (initGame scenario_items 30 None) = Inr s' \<and>
       score s' = 100 \<and> map isCorrect (answers s') = [True, False, False] \<and>
       map pointsEarned (answers s') = [100, 0, 0] \<and> endGameCalls s' = [answers s']"
  by (simp add: scenario_events_def scenario_items_def initGame_def initial_streak_def
      handleAnswer_def answerTimeout_def mainTimerEffect_def onEndGame_def currentItem_def
      js_index_def mk_item_def Let_def consts_defs)

theorem score_is_sum_of_points_witness:
  "\<exists>s'. run scenario_events (initGame scenario_items 30 None) = Inr s' \<and>
       score s' = 100 \<and> totalScore (answers s') = 100 \<and>
       map pointsEarned (answers s') = [100, 0, 0]"
proof -
  from scenario_run obtain s' where
    r: "run scenario_events (initGame scenario_items 30 None) = Inr s'" and
    v: "score s' = 100" "map pointsEarned (answers s') = [100, 0, 0]" by (elim exE conjE)
  from score_is_sum_of_points [of MainTick s' s' scenario_events scenario_items 30 None s'] r
  have "score s' = totalScore (answers s')" by blast
  with r v show ?thesis by auto
qed

section \<open>Properties of the content store\<close>

lemma find_as_filter: "find P xs = (case filter P xs of [] \<Rightarrow> None | x # _ \<Rightarrow> Some x)"
  by (induction xs) auto

lemma put_ids: "set (map item_id (put it db)) = insert (item_id it) (set (map item_id db))"
  by (induction db) auto

lemma no_id_filter:
  "k \<notin> set (map item_id xs) \<Longrightarrow> filter (\<lambda>j. item_id j = k) xs = []"
  by (induction xs) auto

lemma put_filter:
  "distinct (map item_id db) \<Longrightarrow> filter (\<lambda>j. item_id j = item_id it) (put it db) = [it]"
proof (induction db)
  case Nil
  then show ?case by simp
next
  case (Cons x xs)
  show ?case
  proof (cases "item_id x = item_id it")
    case True
    from Cons.prems have "item_id x \<notin> set (map item_id xs)" by simp
    with True have "filter (\<lambda>j. item_id j = item_id it) xs = []"
      using no_id_filter [of "item_id it" xs] by simp
    with True show ?thesis by simp
  next
    case False
    from Cons.prems have "distinct (map item_id xs)" by simp
    from Cons.IH [OF this] False show ?thesis by simp
  qed
qed

lemma put_distinct: "distinct (map item_id db) \<Longrightarrow> distinct (map item_id (put it db))"
proof (induction db)
  case Nil
  then show ?case by simp
next
  case (Cons x xs)
  show ?case
  proof (cases "item_id x = item_id it")
    case True
    with Cons.prems show ?thesis by simp
  next
    case False
    from Cons.prems have d: "distinct (map item_id xs)" and n: "item_id x \<notin> set (map item_id xs)"
      by simp_all
    from n False have "item_id x \<notin> set (map item_id (put it xs))"
      unfolding put_ids by simp
    with Cons.IH [OF d] False show ?thesis by simp
  qed
qed

lemma put_find_rev:
  "distinct (map item_id db) \<Longrightarrow> find (\<lambda>j. item_id j = item_id it) (rev (put it db)) = Some it"
proof -
  assume d: "distinct (map item_id db)"
  have "filter (\<lambda>j. item_id j = item_id it) (rev (put it db)) = rev [it]"
    unfolding rev_filter [symmetric] put_filter [OF d] ..
  then show ?thesis by (simp add: find_as_filter [of _ "rev (put it db)"])
qed

lemma keyed_update: "keyed m \<Longrightarrow> keyed (AList.update (item_id it) it m)"
  by (simp add: keyed_def distinct_update update_conv')

lemma keyed_map_set_all: "keyed m \<Longrightarrow> keyed (map_set_all its m)"
  unfolding map_set_all_def
  by (induction its arbitrary: m) (simp_all add: keyed_update)

lemma find_snoc:
  "find P (xs @ [x]) = (case find P xs of Some v \<Rightarrow> Some v | None \<Rightarrow> if P x then Some x else None)"
  by (induction xs) auto

lemma keyed_Nil: "keyed []"
  by (simp add: keyed_def)

lemma keyed_merge: "keyed (map_set_all db (map_set_all loc []))"
  by (intro keyed_map_set_all keyed_Nil)

lemma map_of_map_set_all:
  "map_of (map_set_all its m) k =
     (case find (\<lambda>j. item_id j = k) (rev its) of Some v \<Rightarrow> Some v | None \<Rightarrow> map_of m k)"
  unfolding map_set_all_def
proof (induction its arbitrary: m)
  case Nil
  then show ?case by simp
next
  case (Cons x xs)
  show ?case
    by (simp add: Cons.IH find_snoc update_conv' split: option.splits)
qed

lemma keyed_Cons:
  assumes "keyed ((a, b) # m)"
  shows "keyed m" and "item_id b = a" and "map_of m a = None"
proof -
  from assms have d: "distinct (map fst m)" and n: "a \<notin> fst ` set m"
    and v: "\<And>k v. map_of ((a, b) # m) k = Some v \<Longrightarrow> item_id v = k"
    unfolding keyed_def by simp_all
  from n show none: "map_of m a = None" by (simp add: map_of_eq_None_iff)
  from v [of a b] show "item_id b = a" by simp
  have "item_id v' = k" if "map_of m k = Some v'" for k v'
  proof -
    from that none have "k \<noteq> a" by auto
    with that have "map_of ((a, b) # m) k = Some v'" by simp
    then show ?thesis by (rule v)
  qed
  with d show "keyed m" unfolding keyed_def by blast
qed

lemma keyed_find: "keyed m \<Longrightarrow> find (\<lambda>j. item_id j = k) (map snd m) = map_of m k"
proof (induction m)
  case Nil
  then show ?case by simp
next
  case (Cons p m)
  obtain a b where p: "p = (a, b)" by (cases p)
  from Cons.prems p have "keyed m" "item_id b = a" using keyed_Cons by blast+
  with Cons.IH p show ?case by simp
qed

lemma keyed_filter:
  "keyed m \<Longrightarrow> filter (\<lambda>j. item_id j = k) (map snd m) = (case map_of m k of Some v \<Rightarrow> [v] | None \<Rightarrow> [])"
proof (induction m)
  case Nil
  then show ?case by simp
next
  case (Cons p m)
  obtain a b where p: "p = (a, b)" by (cases p)
  from Cons.prems p have k: "keyed m" "item_id b = a" "map_of m a = None" using keyed_Cons by blast+
  with Cons.IH p show ?case by (cases "a = k") simp_all
qed

lemma keyed_ids: "keyed m \<Longrightarrow> map item_id (map snd m) = map fst m"
proof (induction m)
  case Nil
  then show ?case by simp
next
  case (Cons p m)
  obtain a b where p: "p = (a, b)" by (cases p)
  from Cons.prems p have k: "keyed m" "item_id b = a" using keyed_Cons by blast+
  with Cons.IH p show ?case by simp
qed

lemma getAllItems_distinct: "distinct (map item_id (getAllItems db lc))"
proof -
  let ?m = "map_set_all db (map_set_all (loadLocalConfig lc) [])"
  have k: "keyed ?m" by (rule keyed_merge)
  have "map item_id (getAllItems db lc) = map fst ?m"
    using keyed_ids [OF k] by (simp add: getAllItems_def)
  moreover have "distinct (map fst ?m)" using k by (simp add: keyed_def)
  ultimately show ?thesis by simp
qed

lemma getAllItems_lookup:
  "lookup (getAllItems db lc) k =
     (case find (\<lambda>j. item_id j = k) (rev db) of Some v \<Rightarrow> Some v
      | None \<Rightarrow> find (\<lambda>j. item_id j = k) (rev (loadLocalConfig lc)))"
proof -
  let ?m = "map_set_all db (map_set_all (loadLocalConfig lc) [])"
  have k: "keyed ?m" by (rule keyed_merge)
  show ?thesis
    by (simp add: lookup_def getAllItems_def keyed_find[OF k] map_of_map_set_all split: option.splits)
qed

lemma getAllItems_filter:
  "filter (\<lambda>j. item_id j = k) (getAllItems db lc) =
     (case lookup (getAllItems db lc) k of Some v \<Rightarrow> [v] | None \<Rightarrow> [])"
proof -
  let ?m = "map_set_all db (map_set_all (loadLocalConfig lc) [])"
  have k: "keyed ?m" by (rule keyed_merge)
  show ?thesis
    by (simp add: lookup_def getAllItems_def keyed_find[OF k] keyed_filter[OF k])
qed

text \<open>
  C5. \<open>getAllItems\<close> builds a map keyed by id from the bundled collection first and then
  overwrites it with the entries of the durable store: looking an id up in its result
  gives the item of the store when the store has one, else the bundled item (the last one,
  should the bundled manifest repeat an id), and no id occurs twice in the result. So after
  \<open>saveItem\<close> of an item, whatever the bundled manifest contains, the result has exactly
  one item of that id, and it is the stored version, marked as custom.
\<close>

theorem getAllItems_store_wins:
  "lookup (getAllItems db lc) k =
     (case find (\<lambda>j. item_id j = k) (rev db) of Some v \<Rightarrow> Some v
      | None \<Rightarrow> find (\<lambda>j. item_id j = k) (rev (loadLocalConfig lc))) \<and>
   distinct (map item_id (getAllItems db lc)) \<and>
   (distinct (map item_id db) \<longrightarrow>
      filter (\<lambda>j. item_id j = item_id item) (getAllItems (saveItem item db) lc)
        = [item\<lparr>isCustom := Some True\<rparr>])"
proof (intro conjI impI)
  assume d: "distinct (map item_id db)"
  let ?it = "item\<lparr>isCustom := Some True\<rparr>"
  have "find (\<lambda>j. item_id j = item_id item) (rev (put ?it db)) = Some ?it"
    using put_find_rev[OF d, of ?it] by simp
  then show "filter (\<lambda>j. item_id j = item_id item) (getAllItems (saveItem item db) lc) = [?it]"
    by (simp add: getAllItems_filter getAllItems_lookup saveItem_def)
next
  show "distinct (map item_id (getAllItems db lc))" by (rule getAllItems_distinct)
next
  show "lookup (getAllItems db lc) k =
     (case find (\<lambda>j. item_id j = k) (rev db) of Some v \<Rightarrow> Some v
      | None \<Rightarrow> find (\<lambda>j. item_id j = k) (rev (loadLocalConfig lc)))"
    by (rule getAllItems_lookup)
qed

text \<open>
  C6. An export on an empty item collection fails with the error \<open>No items to export\<close>
  and leaves the browser as it was: no archive is built and no download is started.
\<close>

theorem export_empty_fails:
  "getAllItems db lc = [] \<Longrightarrow>
     exportGamePack env db lc br = (Inl (Error ''No items to export''), br)"
  by (simp add: exportGamePack_def)

section \<open>Properties of the package codec\<close>

subsection \<open>Import\<close>

lemma url_of_Some:
  "url_of raw = Some u \<longleftrightarrow> (\<exists>fs. raw = JObj fs \<and> map_of fs ''url'' = Some (JStr u))"
  by (cases raw) (auto split: option.splits json.splits)


lemma key_of_update:
  "k \<noteq> ''id'' \<Longrightarrow> key_of (JObj (AList.update k v fs)) = key_of (JObj fs)"
  by (simp add: update_conv')

declare key_of.simps [simp del]

lemma saveObject_keyed:
  "key_of (JObj fs) = Some k \<Longrightarrow>
     saveObject (JObj fs) db = Inr (put_object (JObj (AList.update ''isCustom'' (JBool True) fs)) db)"
  by (simp add: key_of_update Let_def)


declare saveObject.simps [simp del]

lemma import_items_skipped:
  assumes "map_of fs ''url'' = Some (JStr u)" and "\<not> counted zp (JObj fs)"
  shows "import_items env zp (JObj fs # rest) (db, n) = import_items env zp rest (db, n)"
  using assms by (auto simp: counted_def split: if_splits)


lemma import_items_counted:
  assumes "map_of fs ''url'' = Some (JStr u)" and "counted zp (JObj fs)"
    and "key_of (JObj fs) = Some k"
  shows "import_items env zp (JObj fs # rest) (db, n)
           = import_items env zp rest (put_object (imported_object env zp (JObj fs)) db, n + 1)"
proof (cases "startsWith u ''media/''")
  case True
  with assms(1,2) obtain f where f: "map_of zp u = Some f" by (auto simp: counted_def)
  let ?fs = "AList.update ''url'' (JStr (readAsDataURL env (zip_blob f))) fs"
  have "key_of (JObj ?fs) = Some k" using assms(3) by (simp add: key_of_update)
  then have "saveObject (JObj ?fs) db
      = Inr (put_object (JObj (AList.update ''isCustom'' (JBool True) ?fs)) db)"
    by (rule saveObject_keyed)
  moreover have "imported_object env zp (JObj fs) = JObj (AList.update ''isCustom'' (JBool True) ?fs)"
    using True f assms(1) by (simp add: imported_object_def)
  ultimately show ?thesis using True f assms(1) by simp
next
  case False
  with assms(1,2) have d: "startsWith u ''data:''" by (auto simp: counted_def)
  have "saveObject (JObj fs) db
      = Inr (put_object (JObj (AList.update ''isCustom'' (JBool True) fs)) db)"
    using assms(3) by (rule saveObject_keyed)
  moreover have "imported_object env zp (JObj fs) = JObj (AList.update ''isCustom'' (JBool True) fs)"
    using False assms(1) by (simp add: imported_object_def split: option.splits)
  ultimately show ?thesis using False d assms(1) by simp
qed

declare import_items.simps(2) [simp del]







subsection \<open>Import of items\<close>

lemma map_of_opt_field_other: "k \<noteq> k' \<Longrightarrow> map_of (opt_field k f v @ rest) k' = map_of rest k'"
  by (cases v) (simp_all add: opt_field_def)

lemma url_of_json_of_item: "url_of (json_of_item x) = Some (url x)"
  by (simp add: json_of_item_def)

lemma key_of_json_of_item: "key_of (json_of_item x) = Some (JStr (item_id x))"
  by (simp add: json_of_item_def key_of.simps)

lemma set_url_json_of_item:
  "json_of_item x = JObj fs \<Longrightarrow>
     JObj (AList.update ''url'' (JStr d) fs) = json_of_item (x\<lparr>url := d\<rparr>)"
  by (auto simp: json_of_item_def)

lemma set_isCustom_json_of_item:
  "json_of_item x = JObj fs \<Longrightarrow>
     JObj (AList.update ''isCustom'' (JBool True) fs) = json_of_item (x\<lparr>isCustom := Some True\<rparr>)"
  by (cases "shortTip x"; cases "aiModel x"; cases "isCustom x")
     (auto simp: json_of_item_def opt_field_def)

lemma counted_json_of_item:
  "counted zp (json_of_item x) =
     (if startsWith (url x) ''media/'' then map_of zp (url x) \<noteq> None
      else startsWith (url x) ''data:'')"
  by (simp add: counted_def url_of_json_of_item)


lemma imported_object_media:
  assumes "startsWith (url x) ''media/''" and "map_of zp (url x) = Some f"
  shows "imported_object env zp (json_of_item x)
           = json_of_item (x\<lparr>url := readAsDataURL env (zip_blob f), isCustom := Some True\<rparr>)"
proof -
  obtain fs where fs: "json_of_item x = JObj fs" by (simp add: json_of_item_def)
  let ?d = "readAsDataURL env (zip_blob f)"
  have u: "url_of (JObj fs) = Some (url x)" using url_of_json_of_item [of x] fs by simp
  have "imported_object env zp (JObj fs)
          = JObj (AList.update ''isCustom'' (JBool True) (AList.update ''url'' (JStr ?d) fs))"
    using assms u by (simp add: imported_object_def)
  also have "\<dots> = json_of_item (x\<lparr>url := ?d, isCustom := Some True\<rparr>)"
    using set_isCustom_json_of_item [OF set_url_json_of_item [OF fs, of ?d, symmetric]]
    by simp
  finally show ?thesis by (simp add: fs)
qed

lemma imported_object_data:
  assumes "\<not> startsWith (url x) ''media/''"
  shows "imported_object env zp (json_of_item x) = json_of_item (x\<lparr>isCustom := Some True\<rparr>)"
proof -
  obtain fs where fs: "json_of_item x = JObj fs" by (simp add: json_of_item_def)
  have u: "url_of (JObj fs) = Some (url x)" using url_of_json_of_item [of x] fs by simp
  have "imported_object env zp (JObj fs) = JObj (AList.update ''isCustom'' (JBool True) fs)"
    using assms u by (simp add: imported_object_def split: option.splits)
  then show ?thesis using set_isCustom_json_of_item [OF fs] by (simp add: fs)
qed

lemma import_items_typed_step:
  "\<exists>n'. import_items env zp (json_of_item x # rest) (db, n)
           = import_items env zp rest (import_typed env zp x db, n')"
proof -
  obtain fs where fs: "json_of_item x = JObj fs" by (simp add: json_of_item_def)
  have "url_of (JObj fs) = Some (url x)" using url_of_json_of_item [of x] by (simp add: fs)
  then have u: "map_of fs ''url'' = Some (JStr (url x))"
    unfolding url_of_Some by simp
  have k: "key_of (JObj fs) = Some (JStr (item_id x))"
    using key_of_json_of_item [of x] by (simp add: fs)
  show ?thesis
  proof (cases "counted zp (json_of_item x)")
    case False
    then have c: "\<not> counted zp (JObj fs)" by (simp add: fs)
    from False have "import_typed env zp x db = db"
      by (auto simp: counted_json_of_item import_typed_def split: if_splits)
    with import_items_skipped [OF u c, of env rest db n] show ?thesis by (auto simp: fs)
  next
    case True
    then have c: "counted zp (JObj fs)" by (simp add: fs)
    have "put_object (imported_object env zp (json_of_item x)) db = import_typed env zp x db"
    proof (cases "startsWith (url x) ''media/''")
      case m: True
      with True obtain f where f: "map_of zp (url x) = Some f"
        by (auto simp: counted_json_of_item)
      from m f show ?thesis by (simp add: imported_object_media import_typed_def)
    next
      case m: False
      with True have "startsWith (url x) ''data:''" by (simp add: counted_json_of_item)
      with m show ?thesis by (simp add: imported_object_data import_typed_def)
    qed
    with import_items_counted [OF u c k, of env rest db n] show ?thesis by (auto simp: fs)
  qed
qed

lemma import_items_typed:
  "\<exists>n'. import_items env zp (map json_of_item xs) (db, n)
           = Inr (fold (import_typed env zp) xs db, n')"
proof (induction xs arbitrary: db n)
  case Nil
  then show ?case by simp
next
  case (Cons x xs)
  from import_items_typed_step [of env zp x "map json_of_item xs" db n] obtain n1 where
    "import_items env zp (json_of_item x # map json_of_item xs) (db, n)
       = import_items env zp (map json_of_item xs) (import_typed env zp x db, n1)" by blast
  with Cons.IH [of "import_typed env zp x db" n1] show ?case by simp
qed

lemma object_lookup_put:
  "key_of obj = Some k \<Longrightarrow>
     object_lookup (put_object obj db) k' = (if k' = k then Some obj else object_lookup db k')"
  by (induction db) (auto simp: object_lookup_def)

lemma object_lookup_import_typed_other:
  "k \<noteq> JStr (item_id x) \<Longrightarrow> object_lookup (import_typed env zp x db) k = object_lookup db k"
  by (simp add: import_typed_def object_lookup_put key_of_json_of_item split: option.splits)

lemma import_typed_lookup:
  assumes "distinct (map item_id xs)" and "x \<in> set xs"
    and "startsWith (url x) ''media/''" and "map_of zp (url x) = Some f"
  shows "object_lookup (fold (import_typed env zp) xs db) (JStr (item_id x))
           = Some (json_of_item
                     (x\<lparr>url := readAsDataURL env (zip_blob f), isCustom := Some True\<rparr>))"
  using assms(1,2)
proof (induction xs rule: rev_induct)
  case Nil
  then show ?case by simp
next
  case (snoc y ys)
  from snoc.prems(1) have d: "distinct (map item_id ys)" and ny: "item_id y \<notin> set (map item_id ys)"
    by simp_all
  show ?case
  proof (cases "y = x")
    case True
    with assms(3,4) show ?thesis
      by (simp add: import_typed_def object_lookup_put key_of_json_of_item)
  next
    case False
    with snoc.prems(2) have mem: "x \<in> set ys" by simp
    then have "item_id x \<in> set (map item_id ys)" by simp
    with ny have "item_id x \<noteq> item_id y" by auto
    with snoc.IH [OF d mem] show ?thesis by (simp add: object_lookup_import_typed_other)
  qed
qed

text \<open>On items, the store of objects is the typed store: \<open>saveItem\<close> is \<open>saveObject\<close>.\<close>

lemma put_object_typed:
  "put_object (json_of_item it) (map json_of_item db) = map json_of_item (put it db)"
  by (induction db) (simp_all add: key_of_json_of_item)

lemma saveObject_typed:
  "saveObject (json_of_item it) (map json_of_item db)
     = Inr (map json_of_item (saveItem it db))"
proof -
  obtain fs where fs: "json_of_item it = JObj fs" by (simp add: json_of_item_def)
  have k: "key_of (JObj fs) = Some (JStr (item_id it))"
    using key_of_json_of_item [of it] by (simp add: fs)
  from saveObject_keyed [OF k, of "map json_of_item db"] set_isCustom_json_of_item [OF fs]
  show ?thesis by (simp add: fs saveItem_def put_object_typed)
qed

subsection \<open>Names of archive entries\<close>


lemma resolve_data_json: "jszip_resolve ''data.json'' = ''data.json''"
  by code_simp

lemma resolve_game_data_json: "jszip_resolve ''game_data.json'' = ''game_data.json''"
  by code_simp

lemma prototype_values:
  "e \<in> snd ` set OBJECT_PROTOTYPE \<Longrightarrow> e \<noteq> [] \<and> CHR ''.'' \<notin> set e \<and> CHR ''/'' \<notin> set e"
  by (auto simp: OBJECT_PROTOTYPE_def native_function_def)

lemma getExtension_cases:
  "getExtension m u t \<in> {''jpg'', ''png'', ''gif'', ''webp'', ''mp4'', ''webm''}
                         \<union> snd ` set OBJECT_PROTOTYPE"
proof -
  have "ext \<in> {''jpg'', ''png'', ''gif'', ''webp'', ''mp4'', ''webm''} \<union> snd ` set OBJECT_PROTOTYPE"
    if "map_of (MIME_TO_EXT @ OBJECT_PROTOTYPE) k = Some ext" for k ext
  proof -
    from that have "(k, ext) \<in> set (MIME_TO_EXT @ OBJECT_PROTOTYPE)" by (rule map_of_SomeD)
    then have "(k, ext) \<in> set MIME_TO_EXT \<or> (k, ext) \<in> set OBJECT_PROTOTYPE" by simp
    then show ?thesis
    proof
      assume "(k, ext) \<in> set MIME_TO_EXT"
      then show ?thesis by (auto simp: MIME_TO_EXT_def)
    next
      assume "(k, ext) \<in> set OBJECT_PROTOTYPE"
      then have "ext \<in> snd ` set OBJECT_PROTOTYPE" by force
      then show ?thesis by simp
    qed
  qed
  then show ?thesis
    by (auto simp: getExtension_def Let_def split: option.splits)
qed

lemma getExtension_shape:
  "getExtension m u t \<noteq> [] \<and> CHR ''.'' \<notin> set (getExtension m u t)
     \<and> CHR ''/'' \<notin> set (getExtension m u t)"
proof -
  from getExtension_cases [of m u t]
  have "getExtension m u t \<in> {''jpg'', ''png'', ''gif'', ''webp'', ''mp4'', ''webm''}
          \<or> getExtension m u t \<in> snd ` set OBJECT_PROTOTYPE" by simp
  then show ?thesis
  proof
    assume "getExtension m u t \<in> {''jpg'', ''png'', ''gif'', ''webp'', ''mp4'', ''webm''}"
    then show ?thesis by auto
  next
    assume "getExtension m u t \<in> snd ` set OBJECT_PROTOTYPE"
    then show ?thesis by (rule prototype_values)
  qed
qed

lemma getExtension_no_dot: "CHR ''.'' \<notin> set (getExtension m u t)"
  using getExtension_shape [of m u t] by simp

lemma takeWhile_stop: "c \<notin> set xs \<Longrightarrow> takeWhile (\<lambda>x. x \<noteq> c) (xs @ c # ys) = xs"
  by (induction xs) auto

lemma dotted_name_inj:
  assumes "a @ ''.'' @ e = a' @ ''.'' @ e'" and "CHR ''.'' \<notin> set e" and "CHR ''.'' \<notin> set e'"
  shows "a = a'"
proof -
  let ?P = "\<lambda>c. c \<noteq> CHR ''.''"
  from assms(1) have "rev (a @ ''.'' @ e) = rev (a' @ ''.'' @ e')" by (rule arg_cong)
  then have r: "rev e @ CHR ''.'' # rev a = rev e' @ CHR ''.'' # rev a'" by simp
  have "takeWhile ?P (rev e @ CHR ''.'' # rev a) = rev e"
    using assms(2) by (simp add: takeWhile_stop)
  moreover have "takeWhile ?P (rev e' @ CHR ''.'' # rev a') = rev e'"
    using assms(3) by (simp add: takeWhile_stop)
  ultimately have "rev e = rev e'" using r by simp
  with r show ?thesis by simp
qed

lemma media_filename_inj:
  "media_filename it b = media_filename it' b' \<Longrightarrow> item_id it = item_id it'"
  unfolding media_filename_def
  by (erule dotted_name_inj) (rule getExtension_no_dot)+

lemma media_path_inj: "media_path it b = media_path it' b' \<Longrightarrow> item_id it = item_id it'"
  unfolding media_path_def by (rule media_filename_inj) simp

lemma media_path_not_directory: "\<not> is_directory (media_path it b)"
proof -
  let ?e = "getExtension (Some (blob_type b)) (url it) (item_type it)"
  from getExtension_shape [of "Some (blob_type b)" "url it" "item_type it"]
  have ne: "?e \<noteq> []" and ns: "CHR ''/'' \<notin> set ?e" by simp_all
  have "last (media_path it b) = last ?e"
    using ne by (simp add: media_path_def media_filename_def)
  moreover have "last ?e \<in> set ?e" using ne by simp
  ultimately show ?thesis using ns by (auto simp: is_directory_def)
qed

lemma media_path_not_manifest:
  "media_path it b \<noteq> ''data.json''" "media_path it b \<noteq> ''game_data.json''"
  by (simp_all add: media_path_def)

lemma split_on_no_sep: "sep \<notin> set s \<Longrightarrow> split_on sep s = [s]"
  by (induction s) auto

lemma resolve_media_flat:
  assumes "CHR ''/'' \<notin> set s" and "s \<noteq> ''.''" and "s \<noteq> ''..''" and "s \<noteq> []"
  shows "jszip_resolve (''media/'' @ s) = ''media/'' @ s"
  using assms by (simp add: jszip_resolve_def split_on_no_sep)

lemma media_path_flat:
  assumes "CHR ''/'' \<notin> set (item_id it)"
  shows "jszip_resolve (media_path it b) = media_path it b"
proof -
  let ?e = "getExtension (Some (blob_type b)) (url it) (item_type it)"
  let ?s = "media_filename it b"
  from getExtension_shape [of "Some (blob_type b)" "url it" "item_type it"]
  have ne: "?e \<noteq> []" and nd: "CHR ''.'' \<notin> set ?e" and ns: "CHR ''/'' \<notin> set ?e" by simp_all
  have l: "last ?s = last ?e" using ne by (simp add: media_filename_def)
  have "last ?e \<in> set ?e" using ne by simp
  with nd l have ld: "last ?s \<noteq> CHR ''.''" by auto
  have 1: "CHR ''/'' \<notin> set ?s" using assms ns by (simp add: media_filename_def)
  have 2: "?s \<noteq> ''.''" using ld by auto
  have 3: "?s \<noteq> ''..''" using ld by auto
  have 4: "?s \<noteq> []" by (simp add: media_filename_def)
  from resolve_media_flat [OF 1 2 3 4] show ?thesis by (simp add: media_path_def)
qed

subsection \<open>The archive that the export writes\<close>

lemma update_new: "k \<notin> fst ` set al \<Longrightarrow> AList.update k v al = al @ [(k, v)]"
  by (induction al) auto

lemma set_update_subset: "set (AList.update k v al) \<subseteq> insert (k, v) (set al)"
  by (induction al) auto

lemma export_item_unfold:
  "export_item env item (zp, ps) =
     (case resolve_blob env item of
        Some blob \<Rightarrow> (AList.update (media_path item blob) (blob_bytes blob) zp,
                      ps @ [processed_item env item])
      | None \<Rightarrow> (zp, ps @ [processed_item env item]))"
  by (simp add: export_item_def processed_item_def media_path_def Let_def split: option.splits)

lemma export_processed:
  "snd (fold (export_item env) its (zp, ps)) = ps @ map (processed_item env) its"
proof (induction its arbitrary: zp ps)
  case Nil
  then show ?case by simp
next
  case (Cons x xs)
  show ?case
    by (cases "resolve_blob env x") (simp_all add: export_item_unfold Cons.IH)
qed

lemma export_entries:
  "e \<in> set (fst (fold (export_item env) its (zp, ps))) \<Longrightarrow>
     e \<in> set zp \<or>
     (\<exists>it \<in> set its. \<exists>b. resolve_blob env it = Some b \<and> e = (media_path it b, blob_bytes b))"
proof (induction its arbitrary: ps rule: rev_induct)
  case Nil
  then show ?case by simp
next
  case (snoc x xs)
  obtain z q where acc: "fold (export_item env) xs (zp, ps) = (z, q)"
    by (cases "fold (export_item env) xs (zp, ps)")
  show ?case
  proof (cases "resolve_blob env x")
    case None
    with snoc.prems acc have "e \<in> set z" by (simp add: export_item_unfold)
    with snoc.IH [of ps] acc show ?thesis by auto
  next
    case (Some bx)
    with snoc.prems acc have "e \<in> set (AList.update (media_path x bx) (blob_bytes bx) z)"
      by (simp add: export_item_unfold)
    with set_update_subset have "e = (media_path x bx, blob_bytes bx) \<or> e \<in> set z" by fastforce
    then show ?thesis
    proof
      assume "e = (media_path x bx, blob_bytes bx)"
      with Some show ?thesis by auto
    next
      assume "e \<in> set z"
      with snoc.IH [of ps] acc show ?thesis by auto
    qed
  qed
qed

lemma export_media:
  assumes "distinct (map item_id its)"
    and "it \<in> set its" and "resolve_blob env it = Some b"
  shows "map_of (fst (fold (export_item env) its (zp, ps))) (media_path it b)
           = Some (blob_bytes b)"
  using assms
proof (induction its arbitrary: ps rule: rev_induct)
  case Nil
  then show ?case by simp
next
  case (snoc x xs)
  obtain z q where acc: "fold (export_item env) xs (zp, ps) = (z, q)"
    by (cases "fold (export_item env) xs (zp, ps)")
  from snoc.prems(1) have d: "distinct (map item_id xs)" and nx: "item_id x \<notin> set (map item_id xs)"
    by simp_all
  show ?case
  proof (cases "x = it")
    case True
    with snoc.prems(3) acc show ?thesis by (simp add: export_item_unfold update_conv')
  next
    case False
    with snoc.prems(2) have mem: "it \<in> set xs" by simp
    then have "item_id it \<in> set (map item_id xs)" by simp
    with nx have ne: "item_id x \<noteq> item_id it" by auto
    from snoc.IH [OF d mem snoc.prems(3), of ps] acc
    have z: "map_of z (media_path it b) = Some (blob_bytes b)" by simp
    show ?thesis
    proof (cases "resolve_blob env x")
      case None
      with acc z show ?thesis by (simp add: export_item_unfold)
    next
      case (Some bx)
      from ne have "media_path x bx \<noteq> media_path it b"
        using media_path_inj by blast
      with Some acc z show ?thesis by (simp add: export_item_unfold update_conv')
    qed
  qed
qed

subsection \<open>Loading an archive\<close>

lemma load_map_of:
  "map_of (fold load_entry W m) p
     = (case find (\<lambda>e. \<not> is_directory (fst e) \<and> jszip_resolve (fst e) = p) (rev W) of
          Some e \<Rightarrow> Some (snd e)
        | None \<Rightarrow> map_of m p)"
  by (induction W rule: rev_induct) (simp_all add: load_entry_def update_conv')

lemma find_Some_mem: "find P xs = Some x \<Longrightarrow> x \<in> set xs \<and> P x"
  by (induction xs) (auto split: if_splits)

lemma load_unique:
  assumes "(n, v) \<in> set W" and "\<not> is_directory n" and "jszip_resolve n = p"
    and u: "\<And>e. e \<in> set W \<Longrightarrow> \<not> is_directory (fst e) \<Longrightarrow> jszip_resolve (fst e) = p
                  \<Longrightarrow> snd e = v"
  shows "map_of (loadAsync W) p = Some v"
proof -
  let ?P = "\<lambda>e. \<not> is_directory (fst e) \<and> jszip_resolve (fst e) = p"
  show ?thesis
  proof (cases "find ?P (rev W)")
    case None
    then have "\<not> ?P (n, v)" using assms(1) by (auto simp: find_None_iff)
    with assms(2,3) show ?thesis by simp
  next
    case (Some e)
    from find_Some_mem [OF Some] have "e \<in> set W" and "?P e" by simp_all
    with u have "snd e = v" by blast
    with Some show ?thesis by (simp add: loadAsync_def load_map_of)
  qed
qed

lemma load_snoc: "loadAsync (W @ [e]) = load_entry e (loadAsync W)"
  by (simp add: loadAsync_def)

lemma load_manifest:
  "load_entry (''data.json'', j) (load_entry (''game_data.json'', j) zp)
     = AList.update ''data.json'' j (AList.update ''game_data.json'' j zp)"
  by (simp add: load_entry_def is_directory_def resolve_data_json resolve_game_data_json)

subsection \<open>Export followed by import\<close>

lemma processed_item_id: "item_id (processed_item env it) = item_id it"
  by (simp add: processed_item_def split: option.splits)

lemma keeps_entry_flat:
  assumes flat: "\<forall>x \<in> set its. CHR ''/'' \<notin> set (item_id x)"
    and d: "distinct (map item_id its)"
    and mem: "it \<in> set its"
  shows "keeps_entry env its it b"
proof -
  have own: "jszip_resolve (media_path it b) = media_path it b"
    using flat mem by (simp add: media_path_flat)
  have "other = it"
    if o: "other \<in> set its" and r: "jszip_resolve (media_path other b') = media_path it b"
    for other b'
  proof -
    from flat o have "jszip_resolve (media_path other b') = media_path other b'"
      by (simp add: media_path_flat)
    with r have "media_path other b' = media_path it b" by simp
    then have "item_id other = item_id it" by (rule media_path_inj)
    with d o mem show ?thesis by (simp add: distinct_map inj_on_def)
  qed
  with own show ?thesis by (auto simp: keeps_entry_def split: option.splits)
qed

text \<open>
  The round trip, where it holds. For a non-empty item collection, on a platform whose
  JSON parser reads back the manifest that the export writes: the export starts the
  download of an archive; the import of that archive, into any store, succeeds; and for
  every item of the collection whose media resolved to a blob at export time
  \<^item> the archive holds the bytes of the blob under \<open>media/<id>.<ext>\<close>;
  \<^item> if the item keeps its entry through \<open>loadAsync\<close>, the store then holds, under the id
    of the item, the item itself with its \<open>url\<close> replaced by the data url of those same
    bytes (and marked as custom): identical id, \<open>isReal\<close>, title and every other field;
  \<^item> the item keeps its entry whenever no id of the collection contains a slash.
\<close>

theorem export_import_roundtrip:
  assumes ne: "getAllItems db lc \<noteq> []"
    and js: "parse env (stringify env (export_manifest env db lc))
               = Some (export_manifest env db lc)"
  shows "\<exists>name zp.
     exportGamePack env db lc br = (Inr (), br\<lparr>downloads := downloads br @ [(name, zp)]\<rparr>) \<and>
     (\<exists>db' n. importGamePack env (Some zp) db0 = Inr (db', n) \<and>
        (\<forall>it \<in> set (getAllItems db lc). \<forall>b. resolve_blob env it = Some b \<longrightarrow>
            map_of zp (media_path it b) = Some (blob_bytes b) \<and>
            (keeps_entry env (getAllItems db lc) it b \<longrightarrow>
               object_lookup db' (JStr (item_id it))
                 = Some (json_of_item
                           (it\<lparr>url := readAsDataURL env (zip_blob (blob_bytes b)),
                               isCustom := Some True\<rparr>))) \<and>
            ((\<forall>x \<in> set (getAllItems db lc). CHR ''/'' \<notin> set (item_id x)) \<longrightarrow>
               keeps_entry env (getAllItems db lc) it b)))"
proof -
  let ?its = "getAllItems db lc"
  let ?ps = "map (processed_item env) ?its"
  let ?j = "stringify env (export_manifest env db lc)"
  obtain z ps where acc: "fold (export_item env) ?its ([], []) = (z, ps)"
    by (cases "fold (export_item env) ?its ([], [])")
  from export_processed [of env ?its "[]" "[]"] acc have ps: "ps = ?ps" by simp
  have zent: "\<exists>it \<in> set ?its. \<exists>b. resolve_blob env it = Some b \<and> e = (media_path it b, blob_bytes b)"
    if "e \<in> set z" for e
    using export_entries [of e env ?its "[]" "[]"] acc that by simp
  have zn: "''game_data.json'' \<notin> fst ` set z" "''data.json'' \<notin> fst ` set z"
    using zent media_path_not_manifest by fastforce+
  let ?zp = "AList.update ''data.json'' ?j (AList.update ''game_data.json'' ?j z)"
  let ?name = "''real-or-ai-pack-'' @ take 10 (toISOString_later env) @ ''.zip''"
  have ex: "exportGamePack env db lc br
              = (Inr (), br\<lparr>downloads := downloads br @ [(?name, ?zp)]\<rparr>)"
    using ne acc ps by (simp add: exportGamePack_def export_manifest_def Let_def)
  have w1: "AList.update ''game_data.json'' ?j z = z @ [(''game_data.json'', ?j)]"
    using zn(1) by (rule update_new)
  have w2: "?zp = (z @ [(''game_data.json'', ?j)]) @ [(''data.json'', ?j)]"
    unfolding w1 using zn(2) by (intro update_new) simp
  let ?L = "AList.update ''data.json'' ?j (AList.update ''game_data.json'' ?j (loadAsync z))"
  have ld: "loadAsync ?zp = ?L"
    unfolding w2 load_snoc by (rule load_manifest)
  have fm: "find_manifest ?L = Some ?j" by (simp add: find_manifest_def update_conv')
  have mi: "manifest_items (export_manifest env db lc) = Inr (Some (map json_of_item ?ps))"
    by (simp add: export_manifest_def exportData_def)
  from import_items_typed [of env ?L ?ps db0 0] obtain n where
    im: "import_items env ?L (map json_of_item ?ps) (db0, 0)
           = Inr (fold (import_typed env ?L) ?ps db0, n)" by blast
  let ?db' = "fold (import_typed env ?L) ?ps db0"
  have imp: "importGamePack env (Some ?zp) db0 = Inr (?db', n)"
    using fm js mi im by (simp add: importGamePack_def ld)
  have d: "distinct (map item_id ?its)" by (rule getAllItems_distinct)
  have dps: "distinct (map item_id ?ps)" using d by (simp add: comp_def processed_item_id)
  have main: "map_of ?zp (media_path it b) = Some (blob_bytes b) \<and>
      (keeps_entry env ?its it b \<longrightarrow>
         object_lookup ?db' (JStr (item_id it))
           = Some (json_of_item (it\<lparr>url := readAsDataURL env (zip_blob (blob_bytes b)),
                                     isCustom := Some True\<rparr>))) \<and>
      ((\<forall>x \<in> set ?its. CHR ''/'' \<notin> set (item_id x)) \<longrightarrow> keeps_entry env ?its it b)"
    if mem: "it \<in> set ?its" and rb: "resolve_blob env it = Some b" for it b
  proof (intro conjI impI)
    let ?u = "media_path it b"
    let ?x = "processed_item env it"
    have x: "?x = it\<lparr>url := ?u\<rparr>" using rb by (simp add: processed_item_def media_path_def)
    from export_media [OF d mem rb, of "[]" "[]"] acc
    have zu: "map_of z ?u = Some (blob_bytes b)" by simp
    then show "map_of ?zp ?u = Some (blob_bytes b)"
      by (simp add: update_conv' media_path_not_manifest)
    show "keeps_entry env ?its it b"
      if "\<forall>x \<in> set ?its. CHR ''/'' \<notin> set (item_id x)"
      using that d mem by (rule keeps_entry_flat)
    assume ke: "keeps_entry env ?its it b"
    from zu have in_z: "(?u, blob_bytes b) \<in> set z" by (rule map_of_SomeD)
    have uniq: "snd e = blob_bytes b"
      if e: "e \<in> set z" and r: "jszip_resolve (fst e) = ?u" for e
    proof -
      from zent [OF e] obtain other b' where
        o: "other \<in> set ?its" "resolve_blob env other = Some b'"
           "e = (media_path other b', blob_bytes b')" by blast
      from ke o(1,2) r o(3) have "other = it" by (auto simp: keeps_entry_def)
      with o(2,3) rb show ?thesis by simp
    qed
    from ke have own: "jszip_resolve ?u = ?u" by (simp add: keeps_entry_def)
    from load_unique [OF in_z media_path_not_directory own] uniq
    have "map_of (loadAsync z) ?u = Some (blob_bytes b)" by blast
    then have lu: "map_of ?L ?u = Some (blob_bytes b)"
      by (simp add: update_conv' media_path_not_manifest)
    have xm: "?x \<in> set ?ps" using mem by simp
    have sw: "startsWith (url ?x) ''media/''" by (simp add: x startsWith_def media_path_def)
    have zx: "map_of ?L (url ?x) = Some (blob_bytes b)" using lu by (simp add: x)
    from import_typed_lookup [of ?ps ?x ?L "blob_bytes b" env db0, OF dps xm sw zx]
    show "object_lookup ?db' (JStr (item_id it))
           = Some (json_of_item (it\<lparr>url := readAsDataURL env (zip_blob (blob_bytes b)),
                                     isCustom := Some True\<rparr>))"
      by (simp add: processed_item_id) (simp add: x)
  qed
  show ?thesis
    using ex imp main by blast
qed

subsection \<open>Concrete runs\<close>


theorem export_empty_fails_witness:
  "exportGamePack demo_platform [] Unavailable no_downloads
     = (Inl (Error ''No items to export''), no_downloads)"
  using export_empty_fails [of "[]" Unavailable demo_platform no_downloads]
  by (simp add: getAllItems_def map_set_all_def loadLocalConfig_def)

theorem getAllItems_store_wins_witness:
  "filter (\<lambda>j. item_id j = ''x'')
     (getAllItems (saveItem ((mk_item ''x'' True)\<lparr>title := ''stored''\<rparr>) [mk_item ''y'' True])
        (ItemList [mk_item ''x'' False]))
     = [(mk_item ''x'' True)\<lparr>title := ''stored'', isCustom := Some True\<rparr>]"
  using getAllItems_store_wins
    [of "[mk_item ''y'' True]" "ItemList [mk_item ''x'' False]" "''x''"
        "(mk_item ''x'' True)\<lparr>title := ''stored''\<rparr>"]
  by (simp add: mk_item_def)

lemma demo_getAll: "getAllItems [x] Unavailable = [x]"
  by (simp add: getAllItems_def map_set_all_def loadLocalConfig_def)

lemma demo_resolve: "resolve_blob demo_platform (mk_item i r) = Some demo_blob"
  by (simp add: resolve_blob_def demo_platform_def mk_item_def startsWith_def)

lemma demo_ext: "getExtension (Some ''image/png'') u Image = ''png''"
  by code_simp

lemma demo_filename: "media_filename (mk_item i r) demo_blob = i @ ''.png''"
  by (simp add: media_filename_def demo_blob_def mk_item_def demo_ext)

lemma load_escaping: "loadAsync escaping_archive
    = [(''x.png'', [0]), (''game_data.json'', [5]), (''data.json'', [5])]"
  by code_simp


text \<open>
  C4, where the code breaks it. The collection is the one item with the id \<open>../x\<close>; its
  media is a \<open>data:\<close> url and resolves. The export writes the bytes under the entry
  \<open>media/../x.png\<close> and that path into the manifest; \<open>loadAsync\<close> reads the entry as
  \<open>x.png\<close>. The import of the exported archive, whose manifest the parser reads back,
  finds no file at the path of the manifest, skips the item, and returns the count 0 with
  nothing stored: the item is not recovered.
\<close>

theorem export_import_roundtrip_fails:
  "getAllItems [mk_item ''../x'' True] Unavailable = [mk_item ''../x'' True] \<and>
   resolve_blob demo_platform (mk_item ''../x'' True) = Some demo_blob \<and>
   exportGamePack demo_platform [mk_item ''../x'' True] Unavailable no_downloads
     = (Inr (), \<lparr>downloads = [(''real-or-ai-pack-2024-01-01.zip'', escaping_archive)]\<rparr>) \<and>
   parse demo_platform [5] = Some escaping_manifest \<and>
   importGamePack demo_platform (Some escaping_archive) [] = Inr ([], 0)"
  by code_simp

theorem export_import_roundtrip_witness:
  "\<exists>name zp db' n.
     exportGamePack demo_platform [mk_item ''A'' True] Unavailable no_downloads
       = (Inr (), \<lparr>downloads = [(name, zp)]\<rparr>) \<and>
     importGamePack demo_platform (Some zp) [] = Inr (db', n) \<and>
     map_of zp ''media/A.png'' = Some [0] \<and>
     keeps_entry demo_platform [mk_item ''A'' True] (mk_item ''A'' True) demo_blob \<and>
     object_lookup db' (JStr ''A'')
       = Some (json_of_item
                 ((mk_item ''A'' True)\<lparr>url := ''data:application/octet-stream;base64,AA=='',
                                       isCustom := Some True\<rparr>))"
proof -
  let ?db = "[mk_item ''A'' True]"
  have ne: "getAllItems ?db Unavailable \<noteq> []" by (simp add: demo_getAll)
  have em: "export_manifest demo_platform ?db Unavailable = exported_manifest"
    by (simp add: export_manifest_def demo_getAll exportData_def processed_item_def demo_resolve
        demo_filename exported_manifest_def)
       (simp add: demo_platform_def)
  have js: "parse demo_platform (stringify demo_platform (export_manifest demo_platform ?db Unavailable))
      = Some (export_manifest demo_platform ?db Unavailable)"
    unfolding em by code_simp
  from export_import_roundtrip [OF ne js, of no_downloads "[]"] obtain name zp db' n where
    e: "exportGamePack demo_platform ?db Unavailable no_downloads
          = (Inr (), no_downloads\<lparr>downloads := downloads no_downloads @ [(name, zp)]\<rparr>)" and
    i: "importGamePack demo_platform (Some zp) [] = Inr (db', n)" and
    a: "\<forall>it \<in> set (getAllItems ?db Unavailable). \<forall>b. resolve_blob demo_platform it = Some b \<longrightarrow>
            map_of zp (media_path it b) = Some (blob_bytes b) \<and>
            (keeps_entry demo_platform (getAllItems ?db Unavailable) it b \<longrightarrow>
               object_lookup db' (JStr (item_id it))
                 = Some (json_of_item
                           (it\<lparr>url := readAsDataURL demo_platform (zip_blob (blob_bytes b)),
                               isCustom := Some True\<rparr>))) \<and>
            ((\<forall>x \<in> set (getAllItems ?db Unavailable). CHR ''/'' \<notin> set (item_id x)) \<longrightarrow>
               keeps_entry demo_platform (getAllItems ?db Unavailable) it b)"
    by blast
  have flat: "\<forall>x \<in> set ?db. CHR ''/'' \<notin> set (item_id x)" by (simp add: mk_item_def)
  from a demo_resolve [of "''A''" True] flat have
    z: "map_of zp (media_path (mk_item ''A'' True) demo_blob) = Some (blob_bytes demo_blob)" and
    k: "keeps_entry demo_platform ?db (mk_item ''A'' True) demo_blob" and
    l: "keeps_entry demo_platform ?db (mk_item ''A'' True) demo_blob \<longrightarrow>
        object_lookup db' (JStr (item_id (mk_item ''A'' True)))
          = Some (json_of_item
               ((mk_item ''A'' True)\<lparr>url := readAsDataURL demo_platform (zip_blob (blob_bytes demo_blob)),
                         isCustom := Some True\<rparr>))"
    by (simp_all add: demo_getAll)
  from z have r1: "map_of zp ''media/A.png'' = Some [0]"
    by (simp add: media_path_def demo_filename) (simp add: demo_blob_def)
  from l k have r2: "object_lookup db' (JStr ''A'')
       = Some (json_of_item
                 ((mk_item ''A'' True)\<lparr>url := ''data:application/octet-stream;base64,AA=='',
                                       isCustom := Some True\<rparr>))"
    by (simp add: demo_blob_def demo_platform_def zip_blob_def mk_item_def)
  from e have e': "exportGamePack demo_platform ?db Unavailable no_downloads
       = (Inr (), \<lparr>downloads = [(name, zp)]\<rparr>)"
    by (simp add: no_downloads_def)
  from e' i r1 k r2 show ?thesis by blast
qed



section \<open>Properties of the idle watchdog\<close>

lemma owned_cases:
  assumes "owned s"
  obtains
    (none) "timers s = []" "nextTimerId s \<noteq> 0"
  | (idle) tm where "timers s = [tm]" "callback tm = IdleCallback" "timer_id tm \<noteq> 0"
      "now s \<le> due tm" "idleTimerRef s = Some (timer_id tm)" "nextTimerId s \<noteq> 0"
  | (reset) tm where "timers s = [tm]" "callback tm = ResetCallback" "timer_id tm \<noteq> 0"
      "now s \<le> due tm" "resetTimerRef s = Some (timer_id tm)" "nextTimerId s \<noteq> 0"
proof (cases "timers s")
  case Nil
  with assms none show ?thesis by (simp add: owned_def)
next
  case (Cons tm rest)
  with assms have r: "rest = []" by (cases rest) (simp_all add: owned_def)
  show ?thesis
  proof (cases "callback tm")
    case IdleCallback
    with assms Cons r idle show ?thesis by (simp add: owned_def)
  next
    case ResetCallback
    with assms Cons r reset show ?thesis by (simp add: owned_def)
  qed
qed

lemma clearRef_other:
  "resetTimerRef (clearRef r s) = resetTimerRef s" "idleTimerRef (clearRef r s) = idleTimerRef s"
  "now (clearRef r s) = now s" "nextTimerId (clearRef r s) = nextTimerId s"
  by (simp_all add: clearRef_def clearTimeout_def split: option.splits)

lemma clear_fields: "(clearRef r s)\<lparr>timers := ts\<rparr> = s\<lparr>timers := ts\<rparr>"
  by (simp add: clearRef_def clearTimeout_def split: option.splits)

lemma clear_owned:
  assumes "owned s"
  shows "timers (clearRef (resetTimerRef s) (clearRef (idleTimerRef s) s)) = []"
  using assms
proof (cases rule: owned_cases)
  case none
  then show ?thesis by (simp add: clearRef_def clearTimeout_def split: option.splits)
next
  case (idle tm)
  then show ?thesis by (simp add: clearRef_def clearTimeout_def split: option.splits)
next
  case (reset tm)
  then show ?thesis by (simp add: clearRef_def clearTimeout_def split: option.splits)
qed

lemma clear_all:
  assumes "owned s"
  shows "clearRef (resetTimerRef s) (clearRef (idleTimerRef s) s) = s\<lparr>timers := []\<rparr>"
proof -
  let ?c = "clearRef (resetTimerRef s) (clearRef (idleTimerRef s) s)"
  have "?c = ?c\<lparr>timers := timers ?c\<rparr>" by simp
  also have "\<dots> = ?c\<lparr>timers := []\<rparr>" using clear_owned [OF assms] by simp
  also have "\<dots> = s\<lparr>timers := []\<rparr>" by (simp add: clear_fields)
  finally show ?thesis .
qed

lemma startIdleTimer_owned:
  assumes "owned s"
  shows "startIdleTimer s =
     s\<lparr> timers := [\<lparr> timer_id = nextTimerId s, due = now s + 60000, callback = IdleCallback \<rparr>],
        nextTimerId := Suc (nextTimerId s),
        idleTimerRef := Some (nextTimerId s) \<rparr>"
  using clear_all [OF assms]
  by (simp add: startIdleTimer_def Let_def clearRef_other setTimeout_def IDLE_TIMEOUT_def)

lemma owned_startIdleTimer: "owned s \<Longrightarrow> owned (startIdleTimer s)"
proof -
  assume o: "owned s"
  then have "nextTimerId s \<noteq> 0" by (simp add: owned_def)
  then show ?thesis unfolding startIdleTimer_owned [OF o] by (simp add: owned_def)
qed

lemma advance_idle:
  assumes "timers s = [tm]"
  shows "advance t s = (if due tm \<le> t then advance t (fire tm s) else s\<lparr>now := max (now s) t\<rparr>)"
  by (subst advance.simps) (simp add: assms)

lemma advance_none:
  assumes "timers s = []"
  shows "advance t s = s\<lparr>now := max (now s) t\<rparr>"
  by (subst advance.simps) (simp add: assms)

lemma fire_idle:
  assumes "timers s = [tm]" and "callback tm = IdleCallback"
  shows "fire tm s =
     s\<lparr> timers := [\<lparr> timer_id = nextTimerId s, due = max (now s) (due tm) + 15000,
                      callback = ResetCallback \<rparr>],
        now := max (now s) (due tm),
        showIdleWarning := True,
        nextTimerId := nextTimerId s + 1,
        resetTimerRef := Some (nextTimerId s) \<rparr>"
  using assms by (simp add: fire_def idleCallback_def setTimeout_def COUNTDOWN_DURATION_def)

lemma fire_reset:
  assumes "timers s = [tm]" and "callback tm = ResetCallback"
  shows "fire tm s =
     s\<lparr> timers := [], now := max (now s) (due tm),
        backToHomeCalls := backToHomeCalls s @ [max (now s) (due tm)] \<rparr>"
  using assms by (simp add: fire_def resetCallback_def)

lemma countdown:
  assumes o: "owned s"
  shows "advance t (startIdleTimer s) =
     (if t < now s + 60000 then
        (startIdleTimer s)\<lparr>now := max (now s) t\<rparr>
      else if t < now s + 75000 then
        (startIdleTimer s)
          \<lparr> timers := [\<lparr> timer_id = Suc (nextTimerId s), due = now s + 75000,
                          callback = ResetCallback \<rparr>],
             now := t, showIdleWarning := True, nextTimerId := Suc (Suc (nextTimerId s)),
             resetTimerRef := Some (Suc (nextTimerId s)) \<rparr>
      else
        (startIdleTimer s)
          \<lparr> timers := [], now := t, showIdleWarning := True,
             nextTimerId := Suc (Suc (nextTimerId s)),
             resetTimerRef := Some (Suc (nextTimerId s)),
             backToHomeCalls := backToHomeCalls s @ [now s + 75000] \<rparr>)"
proof -
  let ?tm0 = "\<lparr> timer_id = nextTimerId s, due = now s + 60000, callback = IdleCallback \<rparr>"
  let ?s0 = "startIdleTimer s"
  have s0: "?s0 = s\<lparr> timers := [?tm0], nextTimerId := Suc (nextTimerId s),
        idleTimerRef := Some (nextTimerId s) \<rparr>"
    by (rule startIdleTimer_owned [OF o])
  have t0: "timers ?s0 = [?tm0]" by (simp add: s0)
  show ?thesis
  proof (cases "t < now s + 60000")
    case True
    then show ?thesis by (simp add: advance_idle [OF t0]) (simp add: s0)
  next
    case False
    let ?tm1 = "\<lparr> timer_id = Suc (nextTimerId s), due = now s + 75000, callback = ResetCallback \<rparr>"
    let ?s1 = "fire ?tm0 ?s0"
    have s1: "?s1 = ?s0\<lparr> timers := [?tm1], now := now s + 60000, showIdleWarning := True,
        nextTimerId := Suc (Suc (nextTimerId s)), resetTimerRef := Some (Suc (nextTimerId s)) \<rparr>"
      by (subst fire_idle [OF t0]) (simp_all add: s0)
    have t1: "timers ?s1 = [?tm1]" by (simp add: s1)
    have a0: "advance t ?s0 = advance t ?s1" using False by (simp add: advance_idle [OF t0])
    show ?thesis
    proof (cases "t < now s + 75000")
      case True
      have "advance t ?s1 = ?s1\<lparr>now := max (now ?s1) t\<rparr>"
        using True by (simp add: advance_idle [OF t1])
      also have "\<dots> = ?s0\<lparr> timers := [?tm1], now := t, showIdleWarning := True,
             nextTimerId := Suc (Suc (nextTimerId s)),
             resetTimerRef := Some (Suc (nextTimerId s)) \<rparr>"
        unfolding s1 using False by (simp add: max_def)
      finally have "advance t ?s0 = ?s0\<lparr> timers := [?tm1], now := t, showIdleWarning := True,
             nextTimerId := Suc (Suc (nextTimerId s)),
             resetTimerRef := Some (Suc (nextTimerId s)) \<rparr>"
        unfolding a0 .
      then show ?thesis using False True by simp
    next
      case F2: False
      let ?s2 = "fire ?tm1 ?s1"
      have "?s2 = ?s1\<lparr> timers := [], now := max (now ?s1) (due ?tm1),
          backToHomeCalls := backToHomeCalls ?s1 @ [max (now ?s1) (due ?tm1)] \<rparr>"
        by (rule fire_reset [OF t1]) simp
      moreover have "now ?s1 = now s + 60000" by (simp add: s1)
      moreover have "backToHomeCalls ?s1 = backToHomeCalls s" by (simp add: s1) (simp add: s0)
      ultimately have s2: "?s2 = ?s1\<lparr> timers := [], now := now s + 75000,
          backToHomeCalls := backToHomeCalls s @ [now s + 75000] \<rparr>"
        by simp
      have t2: "timers ?s2 = []" unfolding s2 by simp
      have n2: "now ?s2 = now s + 75000" unfolding s2 by simp
      have "advance t ?s1 = advance t ?s2" using F2 by (simp add: advance_idle [OF t1])
      also have "\<dots> = ?s2\<lparr>now := max (now ?s2) t\<rparr>" by (rule advance_none [OF t2])
      also have "\<dots> = ?s2\<lparr>now := t\<rparr>" unfolding n2 using F2 by (simp add: max_def)
      also have "\<dots> = ?s0\<lparr> timers := [], now := t, showIdleWarning := True,
             nextTimerId := Suc (Suc (nextTimerId s)),
             resetTimerRef := Some (Suc (nextTimerId s)),
             backToHomeCalls := backToHomeCalls s @ [now s + 75000] \<rparr>"
        by (subst s2, subst s1) simp
      finally have "advance t ?s0 = ?s0\<lparr> timers := [], now := t, showIdleWarning := True,
             nextTimerId := Suc (Suc (nextTimerId s)),
             resetTimerRef := Some (Suc (nextTimerId s)),
             backToHomeCalls := backToHomeCalls s @ [now s + 75000] \<rparr>"
        unfolding a0 .
      then show ?thesis using False F2 by simp
    qed
  qed
qed

lemma fire_lastRun: "fire tm (s\<lparr>lastRun := l\<rparr>) = (fire tm s)\<lparr>lastRun := l\<rparr>"
  by (cases "callback tm")
     (simp_all add: fire_def idleCallback_def resetCallback_def setTimeout_def Let_def)

lemma advance_lastRun: "advance t (s\<lparr>lastRun := l\<rparr>) = (advance t s)\<lparr>lastRun := l\<rparr>"
proof (induction t s rule: advance.induct)
  case (1 t s)
  show ?case
  proof (cases "earliest (timers s)")
    case None
    then show ?thesis
      by (subst advance.simps, subst (2) advance.simps) simp
  next
    case (Some tm)
    show ?thesis
    proof (cases "due tm \<le> t")
      case True
      from "1.IH" [OF Some True] have "advance t ((fire tm s)\<lparr>lastRun := l\<rparr>) = (advance t (fire tm s))\<lparr>lastRun := l\<rparr>" .
      with Some True show ?thesis
        by (subst advance.simps, subst (2) advance.simps) (simp add: fire_lastRun)
    next
      case False
      with Some show ?thesis
        by (subst advance.simps, subst (2) advance.simps) simp
    qed
  qed
qed

lemma advance_owned_reset:
  assumes "timers s = [tm]" and "callback tm = ResetCallback" and "now s \<le> due tm"
  shows "advance t s =
     (if due tm \<le> t
      then s\<lparr>timers := [], now := t, backToHomeCalls := backToHomeCalls s @ [due tm]\<rparr>
      else s\<lparr>now := max (now s) t\<rparr>)"
proof (cases "due tm \<le> t")
  case True
  let ?s1 = "fire tm s"
  have s1: "?s1 = s\<lparr> timers := [], now := max (now s) (due tm),
        backToHomeCalls := backToHomeCalls s @ [max (now s) (due tm)] \<rparr>"
    by (rule fire_reset [OF assms(1,2)])
  have m: "max (now s) (due tm) = due tm" using assms(3) by simp
  have t1: "timers ?s1 = []" by (subst s1) simp
  have "advance t s = advance t ?s1" using True by (simp add: advance_idle [OF assms(1)])
  also have "\<dots> = ?s1\<lparr>now := max (now ?s1) t\<rparr>" by (rule advance_none [OF t1])
  also have "\<dots> = s\<lparr>timers := [], now := t, backToHomeCalls := backToHomeCalls s @ [due tm]\<rparr>"
    using True assms(3) by (subst s1, subst s1) (simp add: max_def)
  finally show ?thesis using True by simp
next
  case False
  then show ?thesis by (simp add: advance_idle [OF assms(1)])
qed

lemma advance_owned_idle:
  assumes "timers s = [tm]" and "callback tm = IdleCallback" and "now s \<le> due tm"
  shows "advance t s =
     (if t < due tm then s\<lparr>now := max (now s) t\<rparr>
      else if t < due tm + 15000 then
        s\<lparr> timers := [\<lparr> timer_id = nextTimerId s, due = due tm + 15000,
                        callback = ResetCallback \<rparr>],
           now := t, showIdleWarning := True, nextTimerId := Suc (nextTimerId s),
           resetTimerRef := Some (nextTimerId s) \<rparr>
      else
        s\<lparr> timers := [], now := t, showIdleWarning := True,
           nextTimerId := Suc (nextTimerId s), resetTimerRef := Some (nextTimerId s),
           backToHomeCalls := backToHomeCalls s @ [due tm + 15000] \<rparr>)"
proof (cases "t < due tm")
  case True
  then show ?thesis by (simp add: advance_idle [OF assms(1)])
next
  case False
  let ?tm1 = "\<lparr> timer_id = nextTimerId s, due = due tm + 15000, callback = ResetCallback \<rparr>"
  let ?s1 = "s\<lparr> timers := [?tm1], now := due tm, showIdleWarning := True,
        nextTimerId := Suc (nextTimerId s), resetTimerRef := Some (nextTimerId s) \<rparr>"
  have m: "max (now s) (due tm) = due tm" using assms(3) by simp
  have f: "fire tm s = ?s1"
    by (subst fire_idle [OF assms(1,2)]) (simp add: m)
  have a: "advance t s = advance t ?s1" using False by (simp add: advance_idle [OF assms(1)] f)
  have "advance t ?s1 =
     (if due ?tm1 \<le> t
      then ?s1\<lparr>timers := [], now := t, backToHomeCalls := backToHomeCalls ?s1 @ [due ?tm1]\<rparr>
      else ?s1\<lparr>now := max (now ?s1) t\<rparr>)"
    by (rule advance_owned_reset) simp_all
  with a False show ?thesis by (simp add: max_def not_less)
qed

lemma owned_advance: "owned s \<Longrightarrow> owned (advance t s)"
proof -
  assume o: "owned s"
  then show ?thesis
  proof (cases rule: owned_cases)
    case none
    then show ?thesis by (simp add: advance_none owned_def)
  next
    case (idle tm)
    then show ?thesis
      by (simp add: advance_owned_idle [OF idle(1,2,4)] owned_def)
  next
    case (reset tm)
    then show ?thesis
      by (simp add: advance_owned_reset [OF reset(1,2,4)] owned_def)
  qed
qed

lemma owned_lastRun: "owned (s\<lparr>lastRun := l\<rparr>) = owned s"
  by (simp add: owned_def split: list.splits timer_callback.splits)

lemma owned_warning: "owned (s\<lparr>showIdleWarning := b\<rparr>) = owned s"
  by (simp add: owned_def split: list.splits timer_callback.splits)

lemma owned_throttledHandler: "owned s \<Longrightarrow> owned (throttledHandler s)"
  by (simp add: throttledHandler_def handleUserActivity_def owned_lastRun owned_startIdleTimer)

lemma owned_handleResumeGame: "owned s \<Longrightarrow> owned (handleResumeGame s)"
  by (simp add: handleResumeGame_def owned_startIdleTimer owned_warning)

lemma countdown_observed:
  assumes "owned s"
  shows "(t < now s + 60000 \<longrightarrow>
            showIdleWarning (advance t (startIdleTimer s)) = showIdleWarning s \<and>
            backToHomeCalls (advance t (startIdleTimer s)) = backToHomeCalls s)"
    and "(now s + 60000 \<le> t \<and> t < now s + 75000 \<longrightarrow>
            showIdleWarning (advance t (startIdleTimer s)) \<and>
            backToHomeCalls (advance t (startIdleTimer s)) = backToHomeCalls s)"
    and "(now s + 75000 \<le> t \<longrightarrow>
            backToHomeCalls (advance t (startIdleTimer s)) = backToHomeCalls s @ [now s + 75000])"
  unfolding countdown [OF assms]
  by (simp_all add: startIdleTimer_owned [OF assms])

text \<open>
  C8. Let the idle timer be started at time \<open>T\<close> (at mount, by a qualifying activity, or
  by the resume action). With nothing else happening, the warning is not shown before
  \<open>T + 60000\<close> ms, is shown from \<open>T + 60000\<close> on, and \<open>onBackToHome\<close> is called exactly once,
  at \<open>T + 75000\<close>, and not before. While the warning is shown, an activity event changes
  nothing but the time stamp of the throttle: the pending expiry stays as it is. While it
  is not shown, an activity event more than a second after the last one that passed the
  throttle restarts the idle timer, and an earlier one is dropped. The resume action, in
  any state, hides the warning, cancels the pending timers and starts the 60 s countdown
  anew: no expiry before \<open>T + 75000\<close> for the time \<open>T\<close> of the resume.
\<close>

theorem idle_watchdog_timing:
  assumes "owned s"
  shows
   "(t < now s + 60000 \<longrightarrow>
       showIdleWarning (advance t (startIdleTimer s)) = showIdleWarning s \<and>
       backToHomeCalls (advance t (startIdleTimer s)) = backToHomeCalls s) \<and>
    (now s + 60000 \<le> t \<and> t < now s + 75000 \<longrightarrow>
       showIdleWarning (advance t (startIdleTimer s)) \<and>
       backToHomeCalls (advance t (startIdleTimer s)) = backToHomeCalls s) \<and>
    (now s + 75000 \<le> t \<longrightarrow>
       backToHomeCalls (advance t (startIdleTimer s)) = backToHomeCalls s @ [now s + 75000]) \<and>
    (showIdleWarning s \<longrightarrow>
       advance t (throttledHandler s) = (advance t s)\<lparr>lastRun := lastRun (throttledHandler s)\<rparr>) \<and>
    (\<not> showIdleWarning s \<and> 1000 < int (now s) - int (lastRun s) \<longrightarrow>
       throttledHandler s = (startIdleTimer s)\<lparr>lastRun := now s\<rparr>) \<and>
    (\<not> 1000 < int (now s) - int (lastRun s) \<longrightarrow> throttledHandler s = s) \<and>
    advance t (s\<lparr>lastRun := l\<rparr>) = (advance t s)\<lparr>lastRun := l\<rparr> \<and>
    (t < now s + 60000 \<longrightarrow>
       \<not> showIdleWarning (advance t (handleResumeGame s)) \<and>
       backToHomeCalls (advance t (handleResumeGame s)) = backToHomeCalls s) \<and>
    (now s + 60000 \<le> t \<and> t < now s + 75000 \<longrightarrow>
       showIdleWarning (advance t (handleResumeGame s)) \<and>
       backToHomeCalls (advance t (handleResumeGame s)) = backToHomeCalls s) \<and>
    (now s + 75000 \<le> t \<longrightarrow>
       backToHomeCalls (advance t (handleResumeGame s)) = backToHomeCalls s @ [now s + 75000]) \<and>
    owned (startIdleTimer s) \<and> owned (advance t s) \<and> owned (throttledHandler s) \<and>
    owned (handleResumeGame s)"
proof -
  let ?r = "s\<lparr>showIdleWarning := False\<rparr>"
  have r: "owned ?r" using assms by (simp add: owned_warning)
  note c = countdown_observed [OF assms, of t]
  note cr = countdown_observed [OF r, of t]
  have a: "showIdleWarning s \<longrightarrow>
       advance t (throttledHandler s) = (advance t s)\<lparr>lastRun := lastRun (throttledHandler s)\<rparr>"
  proof
    assume w: "showIdleWarning s"
    show "advance t (throttledHandler s) = (advance t s)\<lparr>lastRun := lastRun (throttledHandler s)\<rparr>"
    proof (cases "1000 < int (now s) - int (lastRun s)")
      case True
      with w have "throttledHandler s = s\<lparr>lastRun := now s\<rparr>"
        by (simp add: throttledHandler_def handleUserActivity_def)
      then show ?thesis by (simp add: advance_lastRun)
    next
      case False
      then have "throttledHandler s = s" by (simp add: throttledHandler_def)
      moreover have "(advance t s)\<lparr>lastRun := lastRun s\<rparr> = advance t s"
        using advance_lastRun [where t = t and s = s and l = "lastRun s"] by simp
      ultimately show ?thesis by simp
    qed
  qed
  have b: "\<not> showIdleWarning s \<and> 1000 < int (now s) - int (lastRun s) \<longrightarrow>
       throttledHandler s = (startIdleTimer s)\<lparr>lastRun := now s\<rparr>"
    by (simp add: throttledHandler_def handleUserActivity_def)
  have d: "\<not> 1000 < int (now s) - int (lastRun s) \<longrightarrow> throttledHandler s = s"
    by (simp add: throttledHandler_def)
  have h: "handleResumeGame s = startIdleTimer ?r" by (simp add: handleResumeGame_def)
  from cr have e:
    "t < now s + 60000 \<longrightarrow>
       \<not> showIdleWarning (advance t (handleResumeGame s)) \<and>
       backToHomeCalls (advance t (handleResumeGame s)) = backToHomeCalls s"
    "now s + 60000 \<le> t \<and> t < now s + 75000 \<longrightarrow>
       showIdleWarning (advance t (handleResumeGame s)) \<and>
       backToHomeCalls (advance t (handleResumeGame s)) = backToHomeCalls s"
    "now s + 75000 \<le> t \<longrightarrow>
       backToHomeCalls (advance t (handleResumeGame s)) = backToHomeCalls s @ [now s + 75000]"
    unfolding h by simp_all
  from c a b d e advance_lastRun [where t = t and s = s and l = l] owned_startIdleTimer [OF assms]
    owned_advance [OF assms, of t] owned_throttledHandler [OF assms] owned_handleResumeGame [OF assms]
  show ?thesis by blast
qed

lemma owned_new: "owned (newWatchdog t0)"
  by (simp add: owned_def newWatchdog_def)

theorem idle_watchdog_timing_witness:
  "\<not> showIdleWarning (advance 59999 (mountWatchdog 0)) \<and>
   showIdleWarning (advance 60000 (mountWatchdog 0)) \<and>
   backToHomeCalls (advance 74999 (mountWatchdog 0)) = [] \<and>
   backToHomeCalls (advance 75000 (mountWatchdog 0)) = [75000] \<and>
   backToHomeCalls (advance 200000 (mountWatchdog 0)) = [75000]"
  using idle_watchdog_timing [OF owned_new, of 59999 0]
    idle_watchdog_timing [OF owned_new, of 60000 0]
    idle_watchdog_timing [OF owned_new, of 74999 0]
    idle_watchdog_timing [OF owned_new, of 75000 0]
    idle_watchdog_timing [OF owned_new, of 200000 0]
  by (simp add: mountWatchdog_def newWatchdog_def)

end
